theory Spec2Isabelle
  imports
    Main
    "HOL-Library.Sublist"
    "HOL-Library.AList"
    "HOL-Library.Char_ord"
    "HOL-Library.List_Lexorder"
begin

section \<open>Python primitives used by pymap-copy\<close>

text \<open>
  Python \<open>bytes\<close> values are modelled as \<^typ>\<open>string\<close> (a list of 8-bit characters),
  and a \<open>str\<close> value as the bytes of its UTF-8 encoding: \<open>encode\<close> is the identity, and
  \<open>decode\<close> returns its argument when it succeeds. \<open>lower\<close> folds the ASCII letters, as
  \<open>bytes.lower\<close> does.
\<close>

type_synonym bytes = string

text \<open>
  \<open>b.decode()\<close> decodes UTF-8 in strict mode: it raises \<open>UnicodeDecodeError\<close> (here
  \<open>None\<close>) unless \<open>b\<close> is a sequence of well-formed UTF-8 characters, of one to four
  bytes each, without overlong forms, surrogates or code points above \<open>U+10FFFF\<close>.
\<close>

definition between :: "nat \<Rightarrow> nat \<Rightarrow> char \<Rightarrow> bool" where
  "between lo hi c = (lo \<le> of_char c \<and> of_char c \<le> hi)"

fun utf8 :: "bytes \<Rightarrow> bool" where
  "utf8 [] = True"
| "utf8 (b # bs) =
     (if between 0x00 0x7F b then utf8 bs
      else if between 0xC2 0xDF b then
        (case bs of
           c1 # r \<Rightarrow> between 0x80 0xBF c1 \<and> utf8 r
         | _ \<Rightarrow> False)
      else if between 0xE0 0xEF b then
        (case bs of
           c1 # c2 # r \<Rightarrow>
             between (if b = CHR 0xE0 then 0xA0 else 0x80)
               (if b = CHR 0xED then 0x9F else 0xBF) c1 \<and>
             between 0x80 0xBF c2 \<and> utf8 r
         | _ \<Rightarrow> False)
      else if between 0xF0 0xF4 b then
        (case bs of
           c1 # c2 # c3 # r \<Rightarrow>
             between (if b = CHR 0xF0 then 0x90 else 0x80)
               (if b = CHR 0xF4 then 0x8F else 0xBF) c1 \<and>
             between 0x80 0xBF c2 \<and> between 0x80 0xBF c3 \<and> utf8 r
         | _ \<Rightarrow> False)
      else False)"

definition decode :: "bytes \<Rightarrow> string option" where
  "decode b = (if utf8 b then Some b else None)"

definition backslash :: char where
  "backslash = CHR 0x5C"

definition lower_char :: "char \<Rightarrow> char" where
  "lower_char c =
     (case map_of (zip ''ABCDEFGHIJKLMNOPQRSTUVWXYZ'' ''abcdefghijklmnopqrstuvwxyz'') c of
        Some l \<Rightarrow> l
      | None \<Rightarrow> c)"

definition lower :: "string \<Rightarrow> string" where
  "lower s = map lower_char s"

text \<open>\<open>s.split(sep)\<close> for a one-character separator: never returns the empty list.\<close>

fun split :: "char \<Rightarrow> string \<Rightarrow> string list" where
  "split sep [] = [[]]"
| "split sep (c # cs) =
     (if c = sep then [] # split sep cs
      else (case split sep cs of
              [] \<Rightarrow> [[c]]
            | w # ws \<Rightarrow> (c # w) # ws))"

text \<open>
  \<open>a, b = s.split(sep, 1)\<close>: the text before and after the first separator; the
  unpacking raises \<open>ValueError\<close> (here \<open>None\<close>) when \<open>s\<close> holds no separator.
\<close>

fun split_once :: "char \<Rightarrow> string \<Rightarrow> (string \<times> string) option" where
  "split_once sep [] = None"
| "split_once sep (c # cs) =
     (if c = sep then Some ([], cs)
      else map_option (\<lambda>(a, b). (c # a, b)) (split_once sep cs))"

definition startswith :: "string \<Rightarrow> string \<Rightarrow> bool" where
  "startswith s p = prefix p s"

definition endswith :: "string \<Rightarrow> string \<Rightarrow> bool" where
  "endswith s p = suffix p s"

text \<open>\<open>needle in haystack\<close> on strings: a contiguous occurrence.\<close>

fun contains :: "string \<Rightarrow> string \<Rightarrow> bool" where
  "contains [] needle = (needle = [])"
| "contains (c # cs) needle = (prefix needle (c # cs) \<or> contains cs needle)"

text \<open>
  \<open>s.replace(old, new)\<close>: the occurrences of \<open>old\<close> are found from the left and do not
  overlap; an empty \<open>old\<close> matches before every character and at the end.
\<close>

function replace :: "string \<Rightarrow> string \<Rightarrow> string \<Rightarrow> string" where
  "replace s old new =
     (if old = [] then new @ concat (map (\<lambda>c. c # new) s)
      else if s = [] then []
      else if prefix old s then new @ replace (drop (length old) s) old new
      else hd s # replace (tl s) old new)"
  by pat_completeness auto
termination
  by (relation "measure (\<lambda>(s, old, new). length s)") auto

declare replace.simps [simp del]

text \<open>\<open>xs[:n]\<close> and \<open>del xs[:n]\<close> cut at the same index; \<open>n\<close> may be negative or \<open>None\<close>.\<close>

definition slice_end :: "int option \<Rightarrow> 'a list \<Rightarrow> nat" where
  "slice_end n xs =
     (case n of
        None \<Rightarrow> length xs
      | Some k \<Rightarrow> if 0 \<le> k then min (nat k) (length xs) else nat (int (length xs) + k))"

section \<open>Command-line arguments\<close>

text \<open>
  The namespace that \<open>parser.parse_args()\<close> returns. An option of \<open>type=int\<close> or
  \<open>type=str\<close> without a default is \<open>None\<close> when it is not given. The attribute
  \<open>list\<close> is the field \<open>list_flag\<close>, and \<open>denied_flags\<close> is \<open>arg_denied_flags\<close>
  (the script has a global \<open>denied_flags\<close> as well); the options that only change
  what is printed or how certificates are checked are left out.
\<close>

record args =
  dry_run :: bool
  list_flag :: bool
  incremental :: bool
  abort_on_error :: bool
  buffer_size :: "int option"
  arg_denied_flags :: "string option"
  redirect :: "string list option"
  ignore_quota :: bool
  ignore_folder_flags :: bool
  max_line_length :: "int option"
  max_mail_size :: "int option"
  skip_empty_folders :: bool
  source_user :: string
  source_pass :: string
  source_server :: string
  source_encryption :: string
  source_port :: int
  source_root :: string
  source_mailbox :: "string list"
  destination_user :: string
  destination_pass :: string
  destination_server :: string
  destination_encryption :: string
  destination_port :: int
  destination_root :: string
  destination_root_merge :: bool
  destination_no_subscribe :: bool

text \<open>
  The attribute names of the namespace, one per \<open>add_argument\<close> call: the first long
  option string without its leading dashes and with every \<open>-\<close> turned into \<open>_\<close>.
  \<open>key in args\<close> is membership of \<open>key\<close> in these names.
\<close>

definition namespace_keys :: "string list" where
  "namespace_keys =
     [''dry_run'', ''list'', ''incremental'', ''abort_on_error'', ''buffer_size'',
      ''denied_flags'', ''redirect'', ''ignore_quota'', ''ignore_folder_flags'',
      ''max_line_length'', ''max_mail_size'', ''no_colors'', ''skip_empty_folders'',
      ''ssl_no_verify'', ''source_user'', ''source_pass'', ''source_server'',
      ''source_encryption'', ''source_port'', ''source_root'', ''source_mailbox'',
      ''destination_user'', ''destination_pass'', ''destination_server'',
      ''destination_encryption'', ''destination_port'', ''destination_root'',
      ''destination_root_merge'', ''destination_no_subscribe'']"

definition in_args :: "string \<Rightarrow> bool" where
  "in_args key = (key \<in> set namespace_keys)"

text \<open>
  \<open>--source-port\<close> and \<open>--destination-port\<close> are declared with \<open>default=993\<close>: the
  namespace holds the given port, or 993 when the option is absent.
\<close>

definition parse_port :: "int option \<Rightarrow> int" where
  "parse_port given = (case given of None \<Rightarrow> 993 | Some p \<Rightarrow> p)"

definition check_encryption :: "string \<Rightarrow> string option" where
  "check_encryption v =
     (let v' = lower v
      in if v' \<notin> set [''ssl'', ''tls'', ''starttls'', ''none''] then None else Some v')"

definition default_port :: "string \<Rightarrow> int" where
  "default_port encryption = (if encryption \<in> set [''starttls'', ''none''] then 143 else 993)"

text \<open>Lines 141 to 145: the two tests \<open>'source-port' not in args\<close> and their branches.\<close>

definition port_defaulting :: "args \<Rightarrow> args" where
  "port_defaulting a =
     (let a1 = (if \<not> in_args ''source-port''
                then a\<lparr>source_port := default_port (source_encryption a)\<rparr> else a);
          a2 = (if \<not> in_args ''destination-port''
                then a1\<lparr>destination_port := default_port (destination_encryption a1)\<rparr> else a1)
      in a2)"

section \<open>Denied flags\<close>

definition SPECIAL_FOLDER_FLAGS :: "bytes list" where
  "SPECIAL_FOLDER_FLAGS =
     [backslash # ''Archive'', backslash # ''Junk'', backslash # ''Drafts'',
      backslash # ''Trash'', backslash # ''Sent'']"

text \<open>Lines 149 and 179 to 180. An empty option string is false, like \<open>None\<close>.\<close>

definition denied_flags :: "args \<Rightarrow> bytes list" where
  "denied_flags a =
     [backslash # ''recent''] @
     (case arg_denied_flags a of
        None \<Rightarrow> []
      | Some s \<Rightarrow> if s = [] then [] else map (\<lambda>flag. backslash # flag) (split CHR '','' (lower s)))"

text \<open>The generator handed to \<open>append\<close> on line 578.\<close>

definition append_flags :: "bytes list \<Rightarrow> bytes list \<Rightarrow> bytes list" where
  "append_flags denied flags = filter (\<lambda>flag. lower flag \<notin> set denied) flags"

section \<open>The two IMAP servers\<close>

text \<open>
  What the IMAP client library reports of a server. A message is what \<open>FETCH\<close> returns
  for its UID: the size, the flags, the payload and the internal date are always there,
  the envelope may be missing from the response. Both fetches of the source (the
  metadata during enumeration, the content during transfer) read the same mailbox.
  A library call fails only where the script handles the failure or where the model
  says so: \<open>connect\<close>, \<open>login\<close>, and the replies to \<open>CREATE\<close>, \<open>SUBSCRIBE\<close> and
  \<open>APPEND\<close>. What the script prints is left out.
\<close>

record envelope =
  subject :: "bytes option"
  message_id :: "bytes option"

record mail =
  RFC822_SIZE :: int
  ENVELOPE :: "envelope option"
  FLAGS :: "bytes list"
  RFC822 :: bytes
  INTERNALDATE :: string

text \<open>
  The commands that change the destination mailbox, as they are issued, and the reply to
  each: \<open>No e\<close> is the library raising \<open>IMAPClientError(e)\<close>. A server answers a command
  knowing all the commands before it.
\<close>

datatype command =
    CREATE string
  | SUBSCRIBE string
  | APPEND string bytes "bytes list" string

datatype reply = Ok bytes | No string

type_synonym folder_row = "bytes list \<times> bytes \<times> string"

record server =
  imap_connect :: "int \<Rightarrow> string \<Rightarrow> bool"
  imap_login :: "string \<Rightarrow> string \<Rightarrow> bool"
  imap_quota :: "(int \<times> int) option"
  imap_list_folders :: "string \<Rightarrow> folder_row list"
  imap_search :: "string \<Rightarrow> nat list"
  imap_mail :: "string \<Rightarrow> nat \<Rightarrow> mail option"
  imap_reply :: "command list \<Rightarrow> reply"

text \<open>
  \<open>client.fetch(uids, ...)\<close> on the selected folder: a dictionary from UID to data, so
  every UID is there once; a UID the folder does not hold is left out.
\<close>

definition fetch :: "server \<Rightarrow> string \<Rightarrow> nat list \<Rightarrow> (nat \<times> mail) list" where
  "fetch srv folder uids =
     List.map_filter (\<lambda>u. map_option (Pair u) (imap_mail srv folder u)) (remdups uids)"

section \<open>Manifests, counters and control flow\<close>

datatype subject_text = Decode_mime bytes | Text string

record mail_row =
  row_size :: int
  row_subject :: subject_text
  row_msg_id :: "bytes option"

record source_folder =
  sf_flags :: "bytes list"
  sf_mails :: "(nat \<times> mail_row) list"
  sf_size :: int
  sf_buffer :: "nat list list"

text \<open>A destination row has the key \<open>msg_id\<close> in incremental mode only.\<close>

record destination_row =
  drow_size :: int
  drow_msg_id :: "bytes option option"

record destination_folder =
  df_flags :: "bytes list"
  df_mails :: "(nat \<times> destination_row) list"
  df_size :: int

type_synonym source_db = "(string \<times> source_folder) list"
type_synonym destination_db = "(string \<times> destination_folder) list"

datatype key = UID nat | ITEM bytes

datatype exn =
    KeyError key
  | IMAPClientError string
  | TypeError
  | ZeroDivisionError
  | IndexError
  | NameError
  | AttributeError
  | UnicodeDecodeError
  | KeyboardInterrupt

text \<open>
  An entry of \<open>stats['errors']\<close>. The field \<open>exception\<close> is the exception itself (the
  text is its type name, a colon and its message); \<open>Beautysized n\<close> stands for the text
  \<open>beautysized(n)\<close> of the helper module. The field \<open>id\<close> is the decoded message id, or
  \<open>Decode_failure e\<close> for the text \<open>(decode failure): \<close> followed by the message of the
  exception \<open>e\<close> that \<open>msg_id.decode()\<close> raised.
\<close>

datatype size_text = Unknown_size | Beautysized int

datatype id_text = Decoded string | Decode_failure exn

record error_entry =
  e_size :: size_text
  e_subject :: subject_text
  e_exception :: exn
  e_folder :: string
  e_date :: string
  e_id :: id_text

text \<open>
  The dictionary \<open>stats\<close>, with the log of the commands sent to the destination so far.
\<close>

record state =
  source_mails :: nat
  destination_mails :: nat
  processed :: nat
  errors :: "error_entry list"
  skipped_folders_already_exists :: nat
  skipped_folders_empty :: nat
  skipped_folders_dry_run :: nat
  skipped_folders_by_mailbox :: nat
  skipped_mails_already_exists :: nat
  skipped_mails_zero_size :: nat
  skipped_mails_max_size :: nat
  skipped_mails_max_line_length :: nat
  skipped_mails_no_envelope :: nat
  copied_mails :: nat
  copied_folders :: nat
  commands :: "command list"

definition initial_state :: state where
  "initial_state =
     \<lparr>source_mails = 0, destination_mails = 0, processed = 0, errors = [],
      skipped_folders_already_exists = 0, skipped_folders_empty = 0,
      skipped_folders_dry_run = 0, skipped_folders_by_mailbox = 0,
      skipped_mails_already_exists = 0, skipped_mails_zero_size = 0,
      skipped_mails_max_size = 0, skipped_mails_max_line_length = 0,
      skipped_mails_no_envelope = 0, copied_mails = 0, copied_folders = 0,
      commands = []\<rparr>"

text \<open>
  How a piece of the script ends: it falls through (\<open>Proceed\<close>), it reaches a
  \<open>continue\<close> of the loop around it, it raises, or it never returns.
\<close>

datatype outcome = Proceed | Continue | Raise exn | Hang

fun for_each :: "('a \<Rightarrow> 's \<Rightarrow> outcome \<times> 's) \<Rightarrow> 'a list \<Rightarrow> 's \<Rightarrow> outcome \<times> 's" where
  "for_each body [] s = (Proceed, s)"
| "for_each body (x # xs) s =
     (case body x s of
        (Raise e, s') \<Rightarrow> (Raise e, s')
      | (Hang, s') \<Rightarrow> (Hang, s')
      | (_, s') \<Rightarrow> for_each body xs s')"

section \<open>Folder mapper\<close>

text \<open>
  Lines 443 to 462, for a source folder \<open>sf_name\<close> with manifest \<open>sf\<close>. The delimiters are
  the globals \<open>source_delimiter\<close> and \<open>destination_delimiter\<close>, \<open>None\<close> until a
  \<open>LIST\<close> row has set them; \<open>replace\<close> raises \<open>TypeError\<close> on \<open>None\<close>.
\<close>

fun first_flagged :: "bytes \<Rightarrow> destination_db \<Rightarrow> string option" where
  "first_flagged sf_flag [] = None"
| "first_flagged sf_flag ((name, f) # rest) =
     (if sf_flag \<in> set (df_flags f) then Some name else first_flagged sf_flag rest)"

definition link_special :: "destination_db \<Rightarrow> bytes list \<Rightarrow> string \<Rightarrow> string" where
  "link_special ddb flags name0 =
     fold (\<lambda>sf_flag name.
             if sf_flag \<in> set SPECIAL_FOLDER_FLAGS
             then (case first_flagged sf_flag ddb of Some n \<Rightarrow> n | None \<Rightarrow> name)
             else name)
          flags name0"

definition rooted :: "args \<Rightarrow> string \<Rightarrow> string \<Rightarrow> string" where
  "rooted a dd name =
     (if destination_root a \<noteq> [] then
        (if \<not> destination_root_merge a \<or>
            (\<not> startswith name (destination_root a @ dd) \<and> name \<noteq> destination_root a)
         then destination_root a @ dd @ name
         else name)
      else name)"

definition df_name ::
  "args \<Rightarrow> string option \<Rightarrow> string option \<Rightarrow> destination_db \<Rightarrow> (string \<times> string) list \<Rightarrow>
   string \<Rightarrow> source_folder \<Rightarrow> exn + string" where
  "df_name a source_delimiter destination_delimiter ddb redirections sf_name sf =
     (case (source_delimiter, destination_delimiter) of
        (Some sd, Some dd) \<Rightarrow>
          (let n1 = replace sf_name sd dd;
               n2 = rooted a dd n1;
               n3 = (if \<not> ignore_folder_flags a then link_special ddb (sf_flags sf) n2 else n2);
               n4 = (case map_of redirections sf_name of Some r \<Rightarrow> r | None \<Rightarrow> n3)
           in Inr n4)
      | _ \<Rightarrow> Inl TypeError)"

section \<open>Transfer driver\<close>

text \<open>
  Lines 529 to 532 and 591 to 594: \<open>msg_id.decode()\<close> inside its own \<open>try\<close>. The message
  id of an envelope is \<open>None\<close> or bytes: \<open>None\<close> has no \<open>decode\<close>, and bytes that are
  not UTF-8 do not decode.
\<close>

definition decoded_id :: "bytes option \<Rightarrow> id_text" where
  "decoded_id msg_id =
     (case msg_id of
        None \<Rightarrow> Decode_failure AttributeError
      | Some b \<Rightarrow>
          (case decode b of
             Some message \<Rightarrow> Decoded message
           | None \<Rightarrow> Decode_failure UnicodeDecodeError))"

text \<open>Lines 588 to 610: the handler of a failed \<open>APPEND\<close>, then the \<open>finally\<close> clause.\<close>

definition append_failed ::
  "args \<Rightarrow> string \<Rightarrow> mail_row \<Rightarrow> mail \<Rightarrow> exn \<Rightarrow> state \<Rightarrow> outcome \<times> state" where
  "append_failed a folder row data e s =
     (let s1 = s\<lparr>errors := errors s @
                  [\<lparr>e_size = Beautysized (row_size row), e_subject = row_subject row,
                    e_exception = e, e_folder = folder, e_date = INTERNALDATE data,
                    e_id = decoded_id (row_msg_id row)\<rparr>]\<rparr>;
          s2 = s1\<lparr>processed := processed s1 + 1\<rparr>
      in if abort_on_error a then (Raise KeyboardInterrupt, s2) else (Proceed, s2))"

definition success_messages :: "bytes list" where
  "success_messages = [''append completed'', ''(success)'']"

text \<open>
  Lines 570 to 610: the \<open>else\<close> branch of the skip ladder. The line-length test runs
  when \<open>args.max_line_length\<close> is true, that is neither \<open>None\<close> nor 0. Line 586 decodes
  the reply while it builds the \<open>IMAPClientError\<close>: when \<open>status.decode()\<close> fails, it is
  \<open>UnicodeDecodeError\<close> that leaves the \<open>try\<close>, past the handler of line 588 and through
  the \<open>finally\<close> clause.
\<close>

definition line_too_long :: "args \<Rightarrow> bytes \<Rightarrow> bool" where
  "line_too_long a msg =
     (case max_line_length a of
        None \<Rightarrow> False
      | Some n \<Rightarrow> n \<noteq> 0 \<and> list_ex (\<lambda>line. int (length line) > n) (split CHR 0x0A msg))"

definition append_mail ::
  "args \<Rightarrow> bytes list \<Rightarrow> server \<Rightarrow> string \<Rightarrow> mail_row \<Rightarrow> mail \<Rightarrow> state \<Rightarrow> outcome \<times> state" where
  "append_mail a denied destination folder row data s =
     (if line_too_long a (RFC822 data)
      then (Continue, s\<lparr>skipped_mails_max_line_length := skipped_mails_max_line_length s + 1,
                        processed := processed s + 1\<rparr>)
      else
        (let s1 = s\<lparr>commands := commands s @
                      [APPEND folder (RFC822 data) (append_flags denied (FLAGS data))
                         (INTERNALDATE data)]\<rparr>
         in case imap_reply destination (commands s1) of
              Ok status \<Rightarrow>
                if list_ex (\<lambda>msg. contains (lower status) msg) success_messages
                then (Proceed, s1\<lparr>copied_mails := copied_mails s1 + 1,
                                  processed := processed s1 + 1\<rparr>)
                else
                  (case decode status of
                     Some message \<Rightarrow>
                       append_failed a folder row data
                         (IMAPClientError (''Unknown success message: '' @ message)) s1
                   | None \<Rightarrow>
                       (Raise UnicodeDecodeError, s1\<lparr>processed := processed s1 + 1\<rparr>))
            | No e \<Rightarrow> append_failed a folder row data (IMAPClientError e) s1))"

text \<open>
  Lines 512 to 610: one message of a fetched buffer. The manifest lookup of line 520
  raises \<open>KeyError\<close> for a UID that enumeration left out; \<open>size > args.max_mail_size\<close>
  raises \<open>TypeError\<close> when the option is \<open>None\<close>.
\<close>

definition lookup_failed :: "string \<Rightarrow> nat \<Rightarrow> state \<Rightarrow> outcome \<times> state" where
  "lookup_failed folder mail_id s =
     (Continue, s\<lparr>errors := errors s @
                  [\<lparr>e_size = Unknown_size, e_subject = Text ''(unknown)'',
                    e_exception = KeyError (UID mail_id), e_folder = folder,
                    e_date = ''(unknown)'', e_id = decoded_id (Some ''(unknown)'')\<rparr>]\<rparr>)"

definition already_there :: "destination_db \<Rightarrow> string \<Rightarrow> bytes option \<Rightarrow> bool" where
  "already_there ddb folder msg_id =
     (case map_of ddb folder of
        None \<Rightarrow> False
      | Some f \<Rightarrow> Some msg_id \<in> set (map (\<lambda>(uid, m). drow_msg_id m) (df_mails f)))"

definition transfer_mail ::
  "args \<Rightarrow> bytes list \<Rightarrow> server \<Rightarrow> destination_db \<Rightarrow> source_folder \<Rightarrow> string \<Rightarrow>
   nat \<times> mail \<Rightarrow> state \<Rightarrow> outcome \<times> state" where
  "transfer_mail a denied destination ddb sf folder item s =
     (case item of (mail_id, data) \<Rightarrow>
        if source_mails s = 0 then (Raise ZeroDivisionError, s)
        else
          (case map_of (sf_mails sf) mail_id of
             None \<Rightarrow> lookup_failed folder mail_id s
           | Some row \<Rightarrow>
               if row_size row = 0
               then (Proceed, s\<lparr>skipped_mails_zero_size := skipped_mails_zero_size s + 1,
                                 processed := processed s + 1\<rparr>)
               else
                 (case max_mail_size a of
                    None \<Rightarrow> (Raise TypeError, s)
                  | Some limit \<Rightarrow>
                      if row_size row > limit
                      then (Proceed, s\<lparr>skipped_mails_max_size := skipped_mails_max_size s + 1,
                                        processed := processed s + 1\<rparr>)
                      else if incremental a \<and> already_there ddb folder (row_msg_id row)
                      then (Proceed,
                            s\<lparr>skipped_mails_already_exists := skipped_mails_already_exists s + 1,
                              processed := processed s + 1\<rparr>)
                      else if dry_run a then (Proceed, s)
                      else append_mail a denied destination folder row data s)))"

text \<open>Lines 464 to 503: the destination folder is there, or is created.\<close>

definition create_failed :: "args \<Rightarrow> string \<Rightarrow> state \<Rightarrow> outcome \<times> state" where
  "create_failed a e s =
     (if contains (lower e) ''alreadyexists''
      then (Proceed, s\<lparr>skipped_folders_already_exists := skipped_folders_already_exists s + 1\<rparr>)
      else if abort_on_error a then (Raise KeyboardInterrupt, s)
      else (Continue, s))"

definition create_folder ::
  "args \<Rightarrow> server \<Rightarrow> destination_db \<Rightarrow> source_folder \<Rightarrow> string \<Rightarrow> state \<Rightarrow> outcome \<times> state" where
  "create_folder a destination ddb sf folder s =
     (if folder \<in> set (map fst ddb)
      then (Proceed, s\<lparr>skipped_folders_already_exists := skipped_folders_already_exists s + 1\<rparr>)
      else if \<not> dry_run a then
        (if skip_empty_folders a \<and> sf_mails sf = []
         then (Continue, s\<lparr>skipped_folders_empty := skipped_folders_empty s + 1\<rparr>)
         else
           (let s1 = s\<lparr>commands := commands s @ [CREATE folder]\<rparr>
            in case imap_reply destination (commands s1) of
                 No e \<Rightarrow> create_failed a e s1
               | Ok _ \<Rightarrow>
                   if \<not> destination_no_subscribe a then
                     (let s2 = s1\<lparr>commands := commands s1 @ [SUBSCRIBE folder]\<rparr>
                      in case imap_reply destination (commands s2) of
                           No e \<Rightarrow> create_failed a e s2
                         | Ok _ \<Rightarrow> (Proceed, s2\<lparr>copied_folders := copied_folders s2 + 1\<rparr>))
                   else (Proceed, s1\<lparr>copied_folders := copied_folders s1 + 1\<rparr>)))
      else (Proceed, s))"

text \<open>Lines 507 to 511: the messages of one buffer, fetched from the source.\<close>

definition transfer_buffer ::
  "args \<Rightarrow> bytes list \<Rightarrow> server \<Rightarrow> server \<Rightarrow> destination_db \<Rightarrow> string \<Rightarrow> source_folder \<Rightarrow>
   string \<Rightarrow> nat list \<Rightarrow> state \<Rightarrow> outcome \<times> state" where
  "transfer_buffer a denied source destination ddb sf_name sf folder buffer s =
     for_each (transfer_mail a denied destination ddb sf folder) (fetch source sf_name buffer) s"

text \<open>Lines 441 to 615: one source folder.\<close>

definition transfer_folder ::
  "args \<Rightarrow> bytes list \<Rightarrow> server \<Rightarrow> server \<Rightarrow> string option \<Rightarrow> string option \<Rightarrow>
   destination_db \<Rightarrow> (string \<times> string) list \<Rightarrow> string \<times> source_folder \<Rightarrow> state \<Rightarrow>
   outcome \<times> state" where
  "transfer_folder a denied source destination source_delimiter destination_delimiter ddb
     redirections entry s =
     (case entry of (sf_name, sf) \<Rightarrow>
        (case df_name a source_delimiter destination_delimiter ddb redirections sf_name sf of
           Inl e \<Rightarrow> (Raise e, s)
         | Inr folder \<Rightarrow>
             (case create_folder a destination ddb sf folder s of
                (Proceed, s1) \<Rightarrow>
                  if dry_run a then (Continue, s1)
                  else for_each (transfer_buffer a denied source destination ddb sf_name sf folder)
                         (sf_buffer sf) s1
              | r \<Rightarrow> r)))"

text \<open>Line 441: the folders in the order of their lower-cased names.\<close>

definition transfer ::
  "args \<Rightarrow> bytes list \<Rightarrow> server \<Rightarrow> server \<Rightarrow> string option \<Rightarrow> string option \<Rightarrow>
   source_db \<Rightarrow> destination_db \<Rightarrow> (string \<times> string) list \<Rightarrow> state \<Rightarrow> outcome \<times> state" where
  "transfer a denied source destination source_delimiter destination_delimiter sdb ddb
     redirections s =
     for_each
       (transfer_folder a denied source destination source_delimiter destination_delimiter ddb
          redirections)
       (sort_key (\<lambda>(name, sf). lower name) sdb) s"

section \<open>Folder enumerator\<close>

text \<open>
  Lines 289 to 290 and 351 to 352: the delimiter global is set, to \<open>delimiter.decode()\<close>,
  while it is false (\<open>None\<close> or empty).
\<close>

definition set_delimiter :: "string option \<Rightarrow> bytes \<Rightarrow> exn + string option" where
  "set_delimiter current delimiter =
     (if current = None \<or> current = Some [] then
        (case decode delimiter of
           Some d \<Rightarrow> Inr (Some d)
         | None \<Rightarrow> Inl UnicodeDecodeError)
      else Inr current)"

definition subject_of :: "envelope \<Rightarrow> subject_text" where
  "subject_of e =
     (case subject e of
        Some sub \<Rightarrow> if sub \<noteq> [] then Decode_mime sub else Text ''(no subject)''
      | None \<Rightarrow> Text ''(no subject)'')"

text \<open>Lines 313 to 326: one row of the metadata fetched from the source.\<close>

definition source_row :: "nat \<times> mail \<Rightarrow> source_folder \<times> state \<Rightarrow> source_folder \<times> state" where
  "source_row item fs =
     (case (item, fs) of ((mail_id, data), (f, s)) \<Rightarrow>
        (case ENVELOPE data of
           None \<Rightarrow> (f, s\<lparr>skipped_mails_no_envelope := skipped_mails_no_envelope s + 1\<rparr>)
         | Some e \<Rightarrow>
             (f\<lparr>sf_mails :=
                  AList.update mail_id
                    \<lparr>row_size = RFC822_SIZE data, row_subject = subject_of e,
                     row_msg_id = message_id e\<rparr>
                    (sf_mails f),
                sf_size := sf_size f + RFC822_SIZE data\<rparr>,
              s\<lparr>source_mails := source_mails s + 1\<rparr>)))"

text \<open>
  Lines 310 to 336: \<open>while mails\<close>. When the slice \<open>mails[:buffer_size]\<close> is empty,
  \<open>del\<close> removes nothing and the loop never ends.
\<close>

function source_buffers ::
  "args \<Rightarrow> server \<Rightarrow> string \<Rightarrow> nat list \<Rightarrow> source_folder \<times> state \<Rightarrow>
   outcome \<times> (source_folder \<times> state)" where
  "source_buffers a source name mails fs =
     (if mails = [] then (Proceed, fs)
      else if slice_end (buffer_size a) mails = 0 then (Hang, fs)
      else source_buffers a source name (drop (slice_end (buffer_size a) mails) mails)
             (fold source_row
                (fetch source name (take (slice_end (buffer_size a) mails) mails))
                (case fs of (f, s) \<Rightarrow>
                   (f\<lparr>sf_buffer := sf_buffer f @ [take (slice_end (buffer_size a) mails) mails]\<rparr>,
                    s))))"
  by pat_completeness auto
termination
  by (relation "measure (\<lambda>(a, source, name, mails, fs). length mails)") auto

declare source_buffers.simps [simp del]

text \<open>Lines 287 to 336: one row of the source's \<open>LIST\<close> response.\<close>

definition source_folder_step ::
  "args \<Rightarrow> server \<Rightarrow> folder_row \<Rightarrow> string option \<times> source_db \<times> state \<Rightarrow>
   outcome \<times> (string option \<times> source_db \<times> state)" where
  "source_folder_step a source row acc =
     (case (row, acc) of ((flags, delimiter, name), (sd, sdb, s)) \<Rightarrow>
        (case set_delimiter sd delimiter of
           Inl e \<Rightarrow> (Raise e, (sd, sdb, s))
         | Inr sd' \<Rightarrow>
             if source_mailbox a \<noteq> [] \<and> name \<notin> set (source_mailbox a)
             then (Continue, (sd', sdb, s))
             else if imap_search source name = [] \<and> skip_empty_folders a
             then (Continue, (sd', sdb, s))
             else
               (case source_buffers a source name (imap_search source name)
                       (\<lparr>sf_flags = flags, sf_mails = [], sf_size = 0, sf_buffer = []\<rparr>, s) of
                  (out, (f, s')) \<Rightarrow> (out, (sd', AList.update name f sdb, s')))))"

text \<open>Lines 372 to 381: one row of the metadata fetched from the destination.\<close>

definition destination_row ::
  "args \<Rightarrow> nat \<times> mail \<Rightarrow> destination_folder \<times> state \<Rightarrow>
   outcome \<times> (destination_folder \<times> state)" where
  "destination_row a item fs =
     (case (item, fs) of ((mail_id, data), (f, s)) \<Rightarrow>
        (if incremental a then
           (case ENVELOPE data of
              None \<Rightarrow> (Raise (KeyError (ITEM ''ENVELOPE'')), (f, s))
            | Some e \<Rightarrow>
                (Proceed,
                 (f\<lparr>df_mails :=
                      AList.update mail_id
                        \<lparr>drow_size = RFC822_SIZE data, drow_msg_id = Some (message_id e)\<rparr>
                        (df_mails f),
                    df_size := df_size f + RFC822_SIZE data\<rparr>,
                  s\<lparr>destination_mails := destination_mails s + 1\<rparr>)))
         else
           (Proceed,
            (f\<lparr>df_mails :=
                 AList.update mail_id
                   \<lparr>drow_size = RFC822_SIZE data, drow_msg_id = None\<rparr> (df_mails f),
               df_size := df_size f + RFC822_SIZE data\<rparr>,
             s\<lparr>destination_mails := destination_mails s + 1\<rparr>))))"

function destination_buffers ::
  "args \<Rightarrow> server \<Rightarrow> string \<Rightarrow> nat list \<Rightarrow> destination_folder \<times> state \<Rightarrow>
   outcome \<times> (destination_folder \<times> state)" where
  "destination_buffers a destination name mails fs =
     (if mails = [] then (Proceed, fs)
      else if slice_end (buffer_size a) mails = 0 then (Hang, fs)
      else
        (case for_each (destination_row a)
                (fetch destination name (take (slice_end (buffer_size a) mails) mails)) fs of
           (Raise e, fs') \<Rightarrow> (Raise e, fs')
         | (Hang, fs') \<Rightarrow> (Hang, fs')
         | (_, fs') \<Rightarrow>
             destination_buffers a destination name
               (drop (slice_end (buffer_size a) mails) mails) fs'))"
  by pat_completeness auto
termination
  by (relation "measure (\<lambda>(a, destination, name, mails, fs). length mails)") auto

declare destination_buffers.simps [simp del]

text \<open>
  Lines 349 to 383: one row of the destination's \<open>LIST\<close> response. The mailbox filter
  rewrites the name with the source delimiter, which is \<open>None\<close> when the source listed no
  folder.
\<close>

definition destination_folder_step ::
  "args \<Rightarrow> server \<Rightarrow> string option \<Rightarrow> folder_row \<Rightarrow>
   string option \<times> destination_db \<times> state \<Rightarrow>
   outcome \<times> (string option \<times> destination_db \<times> state)" where
  "destination_folder_step a destination source_delimiter row acc =
     (case (row, acc) of ((flags, delimiter, name), (dd, ddb, s)) \<Rightarrow>
        (case set_delimiter dd delimiter of
           Inl e \<Rightarrow> (Raise e, (dd, ddb, s))
         | Inr dd' \<Rightarrow>
             (let filtered =
                    (if source_mailbox a \<noteq> [] then
                       (case (dd', source_delimiter) of
                          (Some d, Some sd) \<Rightarrow>
                            Inr (replace name d sd \<notin> set (source_mailbox a))
                        | _ \<Rightarrow> Inl TypeError)
                     else Inr False)
              in case filtered of
                   Inl e \<Rightarrow> (Raise e, (dd', ddb, s))
                 | Inr True \<Rightarrow>
                     (Continue,
                      (dd', ddb,
                       s\<lparr>skipped_folders_by_mailbox := skipped_folders_by_mailbox s + 1\<rparr>))
                 | Inr False \<Rightarrow>
                     (case destination_buffers a destination name
                             (imap_search destination name)
                             (\<lparr>df_flags = flags, df_mails = [], df_size = 0\<rparr>, s) of
                        (out, (f, s')) \<Rightarrow> (out, (dd', AList.update name f ddb, s'))))))"

section \<open>Redirections\<close>

text \<open>
  Lines 410 to 432. A rule without a colon raises \<open>ValueError\<close>, whose handler reads the
  unbound name \<open>e\<close>: the run ends with \<open>NameError\<close>.
\<close>

fun custom_links ::
  "string list \<Rightarrow> string list \<Rightarrow> (string \<times> string) list \<times> string list \<Rightarrow>
   exn + (string \<times> string) list \<times> string list" where
  "custom_links folders [] acc = Inr acc"
| "custom_links folders (redirection # rest) acc =
     (case split_once CHR '':'' redirection of
        None \<Rightarrow> Inl NameError
      | Some (r_source, r_destination) \<Rightarrow>
          (case acc of (redirections, not_found) \<Rightarrow>
             (let wildcard_matches = filter (\<lambda>f. startswith f (butlast r_source)) folders;
                  acc1 =
                    (if endswith r_source ''*'' then
                       (if wildcard_matches \<noteq> []
                        then (fold (\<lambda>folder. AList.update folder r_destination) wildcard_matches
                                redirections, not_found)
                        else (redirections, not_found @ [r_source]))
                     else if r_source \<notin> set folders then (redirections, not_found @ [r_source])
                     else (redirections, not_found))
              in custom_links folders rest
                   (AList.update r_source r_destination (fst acc1), snd acc1))))"

section \<open>The run\<close>

text \<open>
  How the process ends: one of the four \<open>exit()\<close> calls (lines 212, 251, 406 and 436),
  an exception nothing catches, no end at all, or the end of the script after a transfer
  that was interrupted (\<open>Aborted\<close>) or ran through (\<open>Finished\<close>). \<open>exit()\<close> is always
  called without a status.
\<close>

datatype ending =
    Exit_login
  | Exit_quota
  | Exit_list
  | Exit_redirect
  | Uncaught exn
  | Never
  | Aborted
  | Finished

record result =
  ending :: ending
  final :: state

text \<open>
  The exit status of the process: \<open>exit()\<close> without a status and the end of the script
  give 0, a traceback gives 1.
\<close>

fun exit_status :: "ending \<Rightarrow> int option" where
  "exit_status (Uncaught e) = Some 1"
| "exit_status Never = None"
| "exit_status _ = Some 0"

definition connect :: "server \<Rightarrow> int \<Rightarrow> string \<Rightarrow> server option" where
  "connect srv port encryption = (if imap_connect srv port encryption then Some srv else None)"

definition login :: "server option \<Rightarrow> string \<Rightarrow> string \<Rightarrow> bool" where
  "login connection user password =
     (case connection of
        Some c \<Rightarrow> imap_login c user password
      | None \<Rightarrow> False)"

text \<open>
  Lines 217 to 255. The quota lines print \<open>usage / limit\<close>, which raises for a limit
  of 0. \<open>Inr True\<close>: the branch that prints \<open>Abort!\<close> and exits.
\<close>

definition get_quota :: "server \<Rightarrow> bool \<Rightarrow> exn + (int \<times> int) option" where
  "get_quota srv wanted =
     (case imap_quota srv of
        Some (usage, limit) \<Rightarrow>
          if wanted then (if limit = 0 then Inl ZeroDivisionError else Inr (Some (usage, limit)))
          else Inr None
      | None \<Rightarrow> Inr None)"

definition check_quota :: "args \<Rightarrow> server \<Rightarrow> server \<Rightarrow> exn + bool" where
  "check_quota a source destination =
     (case get_quota source True of
        Inl e \<Rightarrow> Inl e
      | Inr source_quota \<Rightarrow>
          (case get_quota destination (\<not> ignore_quota a) of
             Inl e \<Rightarrow> Inl e
           | Inr destination_quota \<Rightarrow>
               (case (source_quota, destination_quota) of
                  (Some (s_usage, s_limit), Some (d_usage, d_limit)) \<Rightarrow>
                    (let destination_quota_free = d_limit - d_usage
                     in if destination_quota_free < s_usage
                        then (if ignore_quota a then Inr False else Inr True)
                        else Inr False)
                | _ \<Rightarrow> Inr False)))"

text \<open>
  \<open>start_imap_idle\<close> selects \<open>client.list_folders()[0]\<close>. The refresh every 10000
  source mails repeats it on the destination and changes nothing else.
\<close>

definition start_imap_idle :: "server \<Rightarrow> exn option" where
  "start_imap_idle client = (if imap_list_folders client [] = [] then Some IndexError else None)"

text \<open>Lines 409 to 622: the redirections, then the transfer loop inside its \<open>try\<close>.\<close>

definition redirect_and_transfer ::
  "args \<Rightarrow> bytes list \<Rightarrow> server \<Rightarrow> server \<Rightarrow> string option \<Rightarrow> string option \<Rightarrow>
   source_db \<Rightarrow> destination_db \<Rightarrow> state \<Rightarrow> result" where
  "redirect_and_transfer a denied source destination source_delimiter destination_delimiter
     sdb ddb s =
     (case (case redirect a of
              None \<Rightarrow> Inr ([], [])
            | Some rules \<Rightarrow> custom_links (map fst sdb) rules ([], [])) of
        Inl e \<Rightarrow> \<lparr>ending = Uncaught e, final = s\<rparr>
      | Inr (redirections, not_found) \<Rightarrow>
          if not_found \<noteq> [] then \<lparr>ending = Exit_redirect, final = s\<rparr>
          else
            (case transfer a denied source destination source_delimiter destination_delimiter
                    sdb ddb redirections s of
               (Raise KeyboardInterrupt, s') \<Rightarrow> \<lparr>ending = Aborted, final = s'\<rparr>
             | (Raise e, s') \<Rightarrow> \<lparr>ending = Uncaught e, final = s'\<rparr>
             | (Hang, s') \<Rightarrow> \<lparr>ending = Never, final = s'\<rparr>
             | (_, s') \<Rightarrow> \<lparr>ending = Finished, final = s'\<rparr>))"

text \<open>Lines 283 to 406: both enumerations and the list mode.\<close>

definition enumerate_destination ::
  "args \<Rightarrow> bytes list \<Rightarrow> server \<Rightarrow> server \<Rightarrow> string option \<Rightarrow> source_db \<Rightarrow> state \<Rightarrow> result" where
  "enumerate_destination a denied source destination source_delimiter sdb s =
     (case for_each (destination_folder_step a destination source_delimiter)
             (imap_list_folders destination (destination_root a)) (None, [], s) of
        (Raise e, (dd, ddb, s')) \<Rightarrow> \<lparr>ending = Uncaught e, final = s'\<rparr>
      | (Hang, (dd, ddb, s')) \<Rightarrow> \<lparr>ending = Never, final = s'\<rparr>
      | (_, (dd, ddb, s')) \<Rightarrow>
          if list_flag a then \<lparr>ending = Exit_list, final = s'\<rparr>
          else redirect_and_transfer a denied source destination source_delimiter dd sdb ddb s')"

definition enumerate_source :: "args \<Rightarrow> bytes list \<Rightarrow> server \<Rightarrow> server \<Rightarrow> result" where
  "enumerate_source a denied source destination =
     (case start_imap_idle destination of
        Some e \<Rightarrow> \<lparr>ending = Uncaught e, final = initial_state\<rparr>
      | None \<Rightarrow>
          (case for_each (source_folder_step a source)
                  (imap_list_folders source (source_root a)) (None, [], initial_state) of
             (Raise e, (sd, sdb, s)) \<Rightarrow> \<lparr>ending = Uncaught e, final = s\<rparr>
           | (Hang, (sd, sdb, s)) \<Rightarrow> \<lparr>ending = Never, final = s\<rparr>
           | (_, (sd, sdb, s)) \<Rightarrow>
               (case start_imap_idle source of
                  Some e \<Rightarrow> \<lparr>ending = Uncaught e, final = s\<rparr>
                | None \<Rightarrow> enumerate_destination a denied source destination sd sdb s)))"

text \<open>The whole script, for the parsed arguments and the two servers.\<close>

definition main :: "args \<Rightarrow> server \<Rightarrow> server \<Rightarrow> result" where
  "main parsed source_srv destination_srv =
     (let a = port_defaulting parsed;
          denied = denied_flags a;
          source = connect source_srv (source_port a) (source_encryption a);
          destination = connect destination_srv (destination_port a) (destination_encryption a);
          source_login_ok = login source (source_user a) (source_pass a);
          destination_login_ok = login destination (destination_user a) (destination_pass a)
      in if \<not> (source_login_ok \<and> destination_login_ok)
         then \<lparr>ending = Exit_login, final = initial_state\<rparr>
         else
           (case check_quota a source_srv destination_srv of
              Inl e \<Rightarrow> \<lparr>ending = Uncaught e, final = initial_state\<rparr>
            | Inr True \<Rightarrow> \<lparr>ending = Exit_quota, final = initial_state\<rparr>
            | Inr False \<Rightarrow> enumerate_source a denied source_srv destination_srv))"

section \<open>Notions used in the statements\<close>

text \<open>Both connections are open and both logins were accepted (lines 188 to 210).\<close>

definition logged_in :: "args \<Rightarrow> server \<Rightarrow> server \<Rightarrow> bool" where
  "logged_in parsed source_srv destination_srv =
     (let a = port_defaulting parsed
      in login (connect source_srv (source_port a) (source_encryption a))
           (source_user a) (source_pass a) \<and>
         login (connect destination_srv (destination_port a) (destination_encryption a))
           (destination_user a) (destination_pass a))"

text \<open>
  The words of the specification for a successful \<open>APPEND\<close>: the response contains,
  without regard to case, \<open>append completed\<close> or \<open>(success)\<close>.
\<close>

definition occurs_in :: "string \<Rightarrow> string \<Rightarrow> bool" where
  "occurs_in needle s = (\<exists>before after. s = before @ needle @ after)"

definition recognised :: "bytes \<Rightarrow> bool" where
  "recognised status =
     (occurs_in ''append completed'' (lower status) \<or> occurs_in ''(success)'' (lower status))"

text \<open>
  The words of the specification for the folder mapper: every occurrence of the source
  delimiter (one character) becomes the destination delimiter; the destination folders
  that share a special-use flag with the source folder.
\<close>

definition rewrite_delimiter :: "char \<Rightarrow> string \<Rightarrow> string \<Rightarrow> string" where
  "rewrite_delimiter ds dd name = concat (map (\<lambda>c. if c = ds then dd else [c]) name)"

definition sharing_special_flag :: "destination_db \<Rightarrow> bytes list \<Rightarrow> string set" where
  "sharing_special_flag ddb flags =
     {name. \<exists>f flag. (name, f) \<in> set ddb \<and> flag \<in> set SPECIAL_FOLDER_FLAGS \<and>
                      flag \<in> set flags \<and> flag \<in> set (df_flags f)}"

text \<open>
  An \<open>APPEND\<close> carries a message of the source: its payload, its internal date, and its
  flags without those whose lower-case form is denied.
\<close>

definition from_source :: "server \<Rightarrow> bytes list \<Rightarrow> command \<Rightarrow> bool" where
  "from_source src denied c =
     (case c of
        APPEND folder msg flags date \<Rightarrow>
          (\<exists>name uid data.
             imap_mail src name uid = Some data \<and> msg = RFC822 data \<and>
             flags = filter (\<lambda>flag. lower flag \<notin> set denied) (FLAGS data) \<and>
             date = INTERNALDATE data)
      | _ \<Rightarrow> True)"

text \<open>
  The error entries that come from the \<open>APPEND\<close> handler, and the messages accounted
  for by the transfer: copied, skipped by a rule of the ladder, or failed in \<open>APPEND\<close>.
\<close>

definition append_errors :: "state \<Rightarrow> nat" where
  "append_errors s =
     length (filter (\<lambda>e. case e_exception e of IMAPClientError m \<Rightarrow> True | _ \<Rightarrow> False)
               (errors s))"

definition tally :: "state \<Rightarrow> nat" where
  "tally s =
     copied_mails s + skipped_mails_zero_size s + skipped_mails_max_size s +
     skipped_mails_already_exists s + skipped_mails_max_line_length s + append_errors s"

text \<open>
  Notions of the conservation proof: the fetched rows that carry an envelope, their
  number over the buffers of a folder and over a whole manifest, and a manifest that
  holds exactly the UIDs whose row carries an envelope.
\<close>

definition with_envelope :: "(nat \<times> mail) list \<Rightarrow> nat" where
  "with_envelope items = length (filter (\<lambda>(uid, data). ENVELOPE data \<noteq> None) items)"

definition enumerated :: "server \<Rightarrow> string \<Rightarrow> nat list list \<Rightarrow> nat" where
  "enumerated src name buffers = sum_list (map (\<lambda>b. with_envelope (fetch src name b)) buffers)"

definition total_enumerated :: "server \<Rightarrow> source_db \<Rightarrow> nat" where
  "total_enumerated src sdb =
     sum_list (map (\<lambda>(name, f). enumerated src name (sf_buffer f)) sdb)"

definition envelope_uids :: "server \<Rightarrow> string \<Rightarrow> nat list list \<Rightarrow> nat set" where
  "envelope_uids src name buffers =
     {uid. \<exists>b data. b \<in> set buffers \<and> (uid, data) \<in> set (fetch src name b) \<and>
                    ENVELOPE data \<noteq> None}"

definition manifest_agrees :: "server \<Rightarrow> string \<Rightarrow> source_folder \<Rightarrow> bool" where
  "manifest_agrees src name f =
     (dom (map_of (sf_mails f)) = envelope_uids src name (sf_buffer f))"

section \<open>Sample runs\<close>

text \<open>
  The namespace of a command line that gives only the required options, and variants
  of it: with a size limit, as a dry run, with the denied flags of scenario S5, and in
  list mode with a redirection rule that no source folder resolves.
\<close>

definition default_args :: args where
  "default_args =
     \<lparr>dry_run = False, list_flag = False, incremental = False, abort_on_error = False,
      buffer_size = Some 50, arg_denied_flags = None, redirect = None, ignore_quota = False,
      ignore_folder_flags = False, max_line_length = None, max_mail_size = None,
      skip_empty_folders = False, source_user = ''alice'', source_pass = ''secret'',
      source_server = ''imap.source.example'', source_encryption = ''ssl'',
      source_port = 993, source_root = [], source_mailbox = [],
      destination_user = ''bob'', destination_pass = ''secret'',
      destination_server = ''imap.destination.example'', destination_encryption = ''ssl'',
      destination_port = 993, destination_root = [], destination_root_merge = False,
      destination_no_subscribe = False\<rparr>"

definition sized_args :: args where
  "sized_args = default_args\<lparr>max_mail_size := Some 5000\<rparr>"

definition dry_args :: args where
  "dry_args = sized_args\<lparr>dry_run := True\<rparr>"

definition denying_args :: args where
  "denying_args =
     default_args\<lparr>arg_denied_flags := Some ''Seen,recent'', max_mail_size := Some 5000\<rparr>"

definition unresolved_rule_args :: args where
  "unresolved_rule_args =
     default_args\<lparr>list_flag := True, redirect := Some [''Missing:Elsewhere'']\<rparr>"

text \<open>
  Two messages, one of them without an envelope, and the sources that hold them in
  their \<open>INBOX\<close>: both messages, the first one only, both behind a refused login, both
  on a server that listens on port 1143 only, both under a quota.
\<close>

definition mail_with_envelope :: mail where
  "mail_with_envelope =
     \<lparr>RFC822_SIZE = 1000,
      ENVELOPE = Some \<lparr>subject = Some ''hi'', message_id = Some ''<1@x>''\<rparr>,
      FLAGS = [backslash # ''Seen'', backslash # ''Flagged'', backslash # ''Recent''],
      RFC822 = ''body'', INTERNALDATE = ''d1''\<rparr>"

definition mail_without_envelope :: mail where
  "mail_without_envelope =
     \<lparr>RFC822_SIZE = 2000, ENVELOPE = None, FLAGS = [], RFC822 = ''body2'',
      INTERNALDATE = ''d2''\<rparr>"

definition demo_source :: server where
  "demo_source =
     \<lparr>imap_connect = (\<lambda>port encryption. True),
      imap_login = (\<lambda>user password. True),
      imap_quota = None,
      imap_list_folders = (\<lambda>root. [([], ''/'', ''INBOX'')]),
      imap_search = (\<lambda>name. if name = ''INBOX'' then [1, 2] else []),
      imap_mail =
        (\<lambda>name uid.
           if name = ''INBOX''
           then (if uid = 1 then Some mail_with_envelope
                 else if uid = 2 then Some mail_without_envelope else None)
           else None),
      imap_reply = (\<lambda>h. Ok [])\<rparr>"

definition single_source :: server where
  "single_source =
     demo_source\<lparr>imap_search := (\<lambda>name. if name = ''INBOX'' then [1] else [])\<rparr>"

definition refusing_source :: server where
  "refusing_source = demo_source\<lparr>imap_login := (\<lambda>user password. False)\<rparr>"

definition source_on_1143 :: server where
  "source_on_1143 = demo_source\<lparr>imap_connect := (\<lambda>port encryption. port = 1143)\<rparr>"

definition quota_source :: server where
  "quota_source = demo_source\<lparr>imap_quota := Some (10000, 20000)\<rparr>"

text \<open>
  The destinations: an empty \<open>INBOX\<close> on a server that answers every command with a
  completed \<open>APPEND\<close>, with the bare word \<open>OK\<close>, or that reports a quota.
\<close>

definition demo_destination :: server where
  "demo_destination =
     \<lparr>imap_connect = (\<lambda>port encryption. True),
      imap_login = (\<lambda>user password. True),
      imap_quota = None,
      imap_list_folders = (\<lambda>root. [([], ''/'', ''INBOX'')]),
      imap_search = (\<lambda>name. []),
      imap_mail = (\<lambda>name uid. None),
      imap_reply = (\<lambda>h. Ok ''[APPENDUID 1 1] Append completed.'')\<rparr>"

definition terse_destination :: server where
  "terse_destination = demo_destination\<lparr>imap_reply := (\<lambda>h. Ok ''OK'')\<rparr>"

definition quota_destination :: server where
  "quota_destination = demo_destination\<lparr>imap_quota := Some (15000, 20000)\<rparr>"

text \<open>
  A destination that answers in Latin-1: \<open>OK Nachricht hinzugef\<close>, the byte \<open>0xFC\<close>
  (u with diaeresis), \<open>gt\<close>.
\<close>

definition latin1_reply :: bytes where
  "latin1_reply = ''OK Nachricht hinzugef'' @ [CHR 0xFC] @ ''gt''"

definition latin1_destination :: server where
  "latin1_destination = demo_destination\<lparr>imap_reply := (\<lambda>h. Ok latin1_reply)\<rparr>"

text \<open>
  The manifest that enumeration builds for the sample \<open>INBOX\<close>, its one row, and the
  counters as they stand after that enumeration.
\<close>

definition sample_row :: mail_row where
  "sample_row =
     \<lparr>row_size = 1000, row_subject = Decode_mime ''hi'', row_msg_id = Some ''<1@x>''\<rparr>"

definition inbox_manifest :: source_folder where
  "inbox_manifest =
     \<lparr>sf_flags = [], sf_mails = [(1, sample_row)], sf_size = 1000, sf_buffer = [[1, 2]]\<rparr>"

definition enumerated_state :: "state" where
  "enumerated_state = initial_state\<lparr>source_mails := 1, skipped_mails_no_envelope := 1\<rparr>"

text \<open>Scenarios S2 and S3: a source folder with dots, and a sent folder under two names.\<close>

definition sent_items :: destination_db where
  "sent_items =
     [(''INBOX'', \<lparr>df_flags = [], df_mails = [], df_size = 0\<rparr>),
      (''Sent Items'', \<lparr>df_flags = [backslash # ''Sent''], df_mails = [], df_size = 0\<rparr>)]"

definition gesendet :: source_folder where
  "gesendet = \<lparr>sf_flags = [backslash # ''Sent''], sf_mails = [], sf_size = 0, sf_buffer = []\<rparr>"

definition plain_folder :: source_folder where
  "plain_folder = \<lparr>sf_flags = [], sf_mails = [], sf_size = 0, sf_buffer = []\<rparr>"

text \<open>A manifest whose one message has size 0.\<close>

definition empty_mail_manifest :: source_folder where
  "empty_mail_manifest =
     \<lparr>sf_flags = [], sf_mails = [(1, sample_row\<lparr>row_size := 0\<rparr>)], sf_size = 0,
      sf_buffer = [[1]]\<rparr>"

section \<open>Properties\<close>

subsection \<open>Ports\<close>

lemma in_args_hyphen: "\<not> in_args ''source-port''" "\<not> in_args ''destination-port''"
  by (simp_all add: in_args_def namespace_keys_def)

lemma port_defaulting_eq:
  "port_defaulting a = a\<lparr>source_port := default_port (source_encryption a),
                         destination_port := default_port (destination_encryption a)\<rparr>"
  by (simp add: port_defaulting_def in_args_hyphen Let_def)

text \<open>
  Claim C6 says that a port given on the command line is the port used to connect. The
  test \<open>'source-port' not in args\<close> is true for every namespace, so the port is always
  replaced by the default of the encryption mode: \<open>--source-port 1143\<close> with the default
  encryption \<open>ssl\<close> connects to port 993, and a source that listens on port 1143 only
  is never reached.
\<close>

theorem explicit_port_is_overridden:
  "source_port (port_defaulting (default_args\<lparr>source_port := parse_port (Some 1143)\<rparr>)) = 993 \<and>
   destination_port
     (port_defaulting (default_args\<lparr>destination_port := parse_port (Some 1143)\<rparr>)) = 993 \<and>
   ending (main (default_args\<lparr>source_port := parse_port (Some 1143)\<rparr>) source_on_1143
             demo_destination) = Exit_login"
  by code_simp

subsection \<open>Login and quota\<close>


lemma main_not_logged_in:
  "\<not> logged_in a src dst \<Longrightarrow> main a src dst = \<lparr>ending = Exit_login, final = initial_state\<rparr>"
  by (auto simp: main_def logged_in_def Let_def)

lemma main_logged_in:
  "logged_in a src dst \<Longrightarrow>
   main a src dst =
     (case check_quota (port_defaulting a) src dst of
        Inl e \<Rightarrow> \<lparr>ending = Uncaught e, final = initial_state\<rparr>
      | Inr True \<Rightarrow> \<lparr>ending = Exit_quota, final = initial_state\<rparr>
      | Inr False \<Rightarrow> enumerate_source (port_defaulting a) (denied_flags (port_defaulting a)) src dst)"
  by (simp add: main_def logged_in_def Let_def)

lemma check_quota_insufficient:
  assumes "imap_quota src = Some (su, sl)" "imap_quota dst = Some (du, dl)"
    and "dl - du < su" "\<not> ignore_quota a"
  shows "check_quota a src dst =
           (if sl = 0 \<or> dl = 0 then Inl ZeroDivisionError else Inr True)"
  using assms by (simp add: check_quota_def get_quota_def)

lemma commands_initial [simp]: "commands initial_state = []"
  by (simp add: initial_state_def)

text \<open>
  Claim C8: when both servers report a quota, the free space of the destination is less
  than the usage of the source and \<open>--ignore-quota\<close> is not given, the run stops before
  any transfer and sends no \<open>CREATE\<close> and no \<open>APPEND\<close>. The run ends at the quota
  check (or before it, when a login fails or a reported limit of 0 breaks the quota
  line); after two accepted logins and with limits other than 0 it ends at the
  \<open>exit()\<close> of line 251.
\<close>

theorem quota_short_circuit:
  assumes "imap_quota src = Some (su, sl)" "imap_quota dst = Some (du, dl)"
    and "dl - du < su" "\<not> ignore_quota a"
  shows "commands (final (main a src dst)) = [] \<and>
         ending (main a src dst) \<in> {Exit_login, Exit_quota, Uncaught ZeroDivisionError} \<and>
         (logged_in a src dst \<and> sl \<noteq> 0 \<and> dl \<noteq> 0 \<longrightarrow> ending (main a src dst) = Exit_quota)"
proof (cases "logged_in a src dst")
  case False
  then show ?thesis by (simp add: main_not_logged_in)
next
  case True
  have "ignore_quota (port_defaulting a) = ignore_quota a"
    by (simp add: port_defaulting_eq)
  with assms have "check_quota (port_defaulting a) src dst =
           (if sl = 0 \<or> dl = 0 then Inl ZeroDivisionError else Inr True)"
    by (simp add: check_quota_insufficient)
  with True show ?thesis by (simp add: main_logged_in)
qed

theorem quota_short_circuit_witness:
  "imap_quota quota_source = Some (10000, 20000) \<and>
   imap_quota quota_destination = Some (15000, 20000) \<and>
   (20000::int) - 15000 < 10000 \<and> \<not> ignore_quota default_args \<and>
   logged_in default_args quota_source quota_destination \<and>
   commands (final (main default_args quota_source quota_destination)) = [] \<and>
   ending (main default_args quota_source quota_destination) = Exit_quota"
proof -
  have q: "imap_quota quota_source = Some (10000, 20000)"
    "imap_quota quota_destination = Some (15000, 20000)"
    by (simp_all add: quota_source_def quota_destination_def)
  have i: "\<not> ignore_quota default_args" by (simp add: default_args_def)
  have l: "logged_in default_args quota_source quota_destination"
    by (simp add: logged_in_def port_defaulting_eq login_def connect_def quota_source_def
        quota_destination_def demo_source_def demo_destination_def)
  have d: "(20000::int) - 15000 < 10000" by simp
  from quota_short_circuit [OF q d i] l q i show ?thesis by simp
qed


subsection \<open>Iteration\<close>

lemma for_each_invariant:
  assumes "\<And>x s out s'. x \<in> set xs \<Longrightarrow> I s \<Longrightarrow> body x s = (out, s') \<Longrightarrow> I s'"
    and "I s" "for_each body xs s = (out, s')"
  shows "I s'"
  using assms
proof (induction xs arbitrary: s)
  case Nil
  then show ?case by simp
next
  case (Cons x xs)
  obtain o1 s1 where b: "body x s = (o1, s1)" by (cases "body x s")
  have i1: "I s1" using Cons.prems(1)[of x s o1 s1] Cons.prems(2) b by simp
  show ?case
  proof (cases o1)
    case Proceed
    with b Cons.prems(3) have "for_each body xs s1 = (out, s')" by simp
    then show ?thesis using Cons.IH[of s1] Cons.prems(1) i1 by auto
  next
    case Continue
    with b Cons.prems(3) have "for_each body xs s1 = (out, s')" by simp
    then show ?thesis using Cons.IH[of s1] Cons.prems(1) i1 by auto
  next
    case (Raise e)
    with b Cons.prems(3) i1 show ?thesis by simp
  next
    case Hang
    with b Cons.prems(3) i1 show ?thesis by simp
  qed
qed


lemma for_each_outcome:
  "for_each body xs s = (out, s') \<Longrightarrow> out = Proceed \<or> out = Hang \<or> (\<exists>e. out = Raise e)"
proof (induction xs arbitrary: s)
  case Nil
  then show ?case by simp
next
  case (Cons x xs)
  obtain o1 s1 where b: "body x s = (o1, s1)" by (cases "body x s")
  show ?case
  proof (cases o1)
    case Proceed
    with b Cons.prems have "for_each body xs s1 = (out, s')" by simp
    then show ?thesis by (rule Cons.IH)
  next
    case Continue
    with b Cons.prems have "for_each body xs s1 = (out, s')" by simp
    then show ?thesis by (rule Cons.IH)
  next
    case (Raise e)
    with b Cons.prems show ?thesis by auto
  next
    case Hang
    with b Cons.prems show ?thesis by auto
  qed
qed

subsection \<open>What the enumerations change\<close>

lemma source_row_frame:
  "source_row item (f, s) = (f', s') \<Longrightarrow>
   \<exists>sm ne. s' = s\<lparr>source_mails := sm, skipped_mails_no_envelope := ne\<rparr>"
proof (cases item)
  case (Pair mail_id data)
  assume r: "source_row item (f, s) = (f', s')"
  show ?thesis
  proof (cases "ENVELOPE data")
    case None
    with r Pair have "s' = s\<lparr>source_mails := source_mails s,
        skipped_mails_no_envelope := skipped_mails_no_envelope s + 1\<rparr>"
      by (auto simp: source_row_def)
    then show ?thesis by blast
  next
    case (Some e)
    with r Pair have "s' = s\<lparr>source_mails := source_mails s + 1,
        skipped_mails_no_envelope := skipped_mails_no_envelope s\<rparr>"
      by (auto simp: source_row_def)
    then show ?thesis by blast
  qed
qed

lemma fold_source_row_frame:
  "fold source_row items (f, s) = (f', s') \<Longrightarrow>
   \<exists>sm ne. s' = s\<lparr>source_mails := sm, skipped_mails_no_envelope := ne\<rparr>"
proof (induction items arbitrary: f s)
  case Nil
  then have "s' = s\<lparr>source_mails := source_mails s,
      skipped_mails_no_envelope := skipped_mails_no_envelope s\<rparr>" by simp
  then show ?case by blast
next
  case (Cons item items)
  obtain f1 s1 where r: "source_row item (f, s) = (f1, s1)" by (cases "source_row item (f, s)")
  with Cons.prems have "fold source_row items (f1, s1) = (f', s')" by simp
  then obtain sm ne where 1: "s' = s1\<lparr>source_mails := sm, skipped_mails_no_envelope := ne\<rparr>"
    using Cons.IH by blast
  from r obtain sm1 ne1 where "s1 = s\<lparr>source_mails := sm1, skipped_mails_no_envelope := ne1\<rparr>"
    using source_row_frame by blast
  with 1 have "s' = s\<lparr>source_mails := sm, skipped_mails_no_envelope := ne\<rparr>" by simp
  then show ?case by blast
qed

lemma source_buffers_frame:
  "source_buffers a src name mails (f, s) = (out, (f', s')) \<Longrightarrow>
   \<exists>sm ne. s' = s\<lparr>source_mails := sm, skipped_mails_no_envelope := ne\<rparr>"
proof (induction a src name mails "(f, s)" arbitrary: f s rule: source_buffers.induct)
  case (1 a source name mails)
  show ?case
  proof (cases "mails = [] \<or> slice_end (buffer_size a) mails = 0")
    case True
    with "1.prems" have "s' = s\<lparr>source_mails := source_mails s,
        skipped_mails_no_envelope := skipped_mails_no_envelope s\<rparr>"
      by (auto simp: source_buffers.simps[of a source name mails] split: if_splits)
    then show ?thesis by blast
  next
    case False
    let ?k = "slice_end (buffer_size a) mails"
    obtain f1 s1 where r: "fold source_row (fetch source name (take ?k mails))
        (f\<lparr>sf_buffer := sf_buffer f @ [take ?k mails]\<rparr>, s) = (f1, s1)"
      by (cases "fold source_row (fetch source name (take ?k mails))
        (f\<lparr>sf_buffer := sf_buffer f @ [take ?k mails]\<rparr>, s)")
    from False "1.prems" r
    have "source_buffers a source name (drop ?k mails) (f1, s1) = (out, (f', s'))"
      by (simp add: source_buffers.simps[of a source name mails])
    with "1.hyps"[of f1 s1] False r
    obtain sm ne where 2: "s' = s1\<lparr>source_mails := sm, skipped_mails_no_envelope := ne\<rparr>"
      by auto
    from r obtain sm1 ne1 where "s1 = s\<lparr>source_mails := sm1, skipped_mails_no_envelope := ne1\<rparr>"
      using fold_source_row_frame by blast
    with 2 have "s' = s\<lparr>source_mails := sm, skipped_mails_no_envelope := ne\<rparr>" by simp
    then show ?thesis by blast
  qed
qed

lemma source_folder_step_frame:
  assumes "source_folder_step a src row (sd, sdb, s) = (out, (sd', sdb', s'))"
  shows "\<exists>sm ne. s' = s\<lparr>source_mails := sm, skipped_mails_no_envelope := ne\<rparr>"
proof -
  obtain flags delimiter name where row: "row = (flags, delimiter, name)" by (cases row)
  have same: "s = s\<lparr>source_mails := source_mails s,
      skipped_mails_no_envelope := skipped_mails_no_envelope s\<rparr>" by simp
  show ?thesis
  proof (cases "set_delimiter sd delimiter")
    case (Inl e)
    with assms row have "s' = s" by (simp add: source_folder_step_def)
    with same show ?thesis by metis
  next
    case (Inr d)
    show ?thesis
    proof (cases "(source_mailbox a \<noteq> [] \<and> name \<notin> set (source_mailbox a)) \<or>
                  (imap_search src name = [] \<and> skip_empty_folders a)")
      case True
      with assms row Inr have "s' = s"
        by (auto simp: source_folder_step_def split: if_splits)
      with same show ?thesis by metis
    next
      case False
      obtain o1 f1 s1 where b: "source_buffers a src name (imap_search src name)
          (\<lparr>sf_flags = flags, sf_mails = [], sf_size = 0, sf_buffer = []\<rparr>, s) = (o1, (f1, s1))"
        by (metis prod.exhaust)
      with False assms row Inr have "s' = s1"
        by (auto simp: source_folder_step_def split: if_splits)
      with b show ?thesis using source_buffers_frame by blast
    qed
  qed
qed

lemma get_source_folders_frame:
  assumes "for_each (source_folder_step a src) rows (sd, sdb, s) = (out, (sd', sdb', s'))"
  shows "\<exists>sm ne. s' = s\<lparr>source_mails := sm, skipped_mails_no_envelope := ne\<rparr>"
proof -
  let ?I = "\<lambda>acc. \<exists>sm ne. snd (snd acc) = s\<lparr>source_mails := sm, skipped_mails_no_envelope := ne\<rparr>"
  have step: "\<And>x acc out acc'. x \<in> set rows \<Longrightarrow> ?I acc \<Longrightarrow>
      source_folder_step a src x acc = (out, acc') \<Longrightarrow> ?I acc'"
  proof -
    fix x acc out acc'
    assume i: "?I acc" and r: "source_folder_step a src x acc = (out, acc')"
    obtain d0 b0 s0 where acc: "acc = (d0, b0, s0)" by (cases acc)
    obtain d1 b1 s1 where acc': "acc' = (d1, b1, s1)" by (cases acc')
    from r acc acc' obtain sm ne
      where 1: "s1 = s0\<lparr>source_mails := sm, skipped_mails_no_envelope := ne\<rparr>"
      using source_folder_step_frame by blast
    from i acc obtain sm0 ne0
      where "s0 = s\<lparr>source_mails := sm0, skipped_mails_no_envelope := ne0\<rparr>" by auto
    with 1 have "s1 = s\<lparr>source_mails := sm, skipped_mails_no_envelope := ne\<rparr>" by simp
    with acc' show "?I acc'" by auto
  qed
  have init: "?I (sd, sdb, s)"
  proof -
    have "s = s\<lparr>source_mails := source_mails s,
      skipped_mails_no_envelope := skipped_mails_no_envelope s\<rparr>" by simp
    then show ?thesis by (metis snd_conv)
  qed
  from for_each_invariant[where I = ?I, OF step init assms] show ?thesis by simp
qed

lemma destination_row_frame:
  "destination_row a item (f, s) = (out, (f', s')) \<Longrightarrow>
   \<exists>dm bm. s' = s\<lparr>destination_mails := dm, skipped_folders_by_mailbox := bm\<rparr>"
proof (cases item)
  case (Pair mail_id data)
  assume r: "destination_row a item (f, s) = (out, (f', s'))"
  have "s' = s\<lparr>destination_mails := destination_mails s,
        skipped_folders_by_mailbox := skipped_folders_by_mailbox s\<rparr> \<or>
      s' = s\<lparr>destination_mails := destination_mails s + 1,
        skipped_folders_by_mailbox := skipped_folders_by_mailbox s\<rparr>"
    using r Pair by (auto simp: destination_row_def split: if_splits option.splits)
  then show ?thesis by blast
qed

lemma destination_rows_frame:
  assumes "for_each (destination_row a) items (f, s) = (out, (f', s'))"
  shows "\<exists>dm bm. s' = s\<lparr>destination_mails := dm, skipped_folders_by_mailbox := bm\<rparr>"
proof -
  let ?I = "\<lambda>fs. \<exists>dm bm. snd fs = s\<lparr>destination_mails := dm, skipped_folders_by_mailbox := bm\<rparr>"
  have step: "\<And>x fs out fs'. x \<in> set items \<Longrightarrow> ?I fs \<Longrightarrow>
      destination_row a x fs = (out, fs') \<Longrightarrow> ?I fs'"
  proof -
    fix x fs out fs'
    assume i: "?I fs" and r: "destination_row a x fs = (out, fs')"
    obtain f0 s0 where fs: "fs = (f0, s0)" by (cases fs)
    obtain f1 s1 where fs': "fs' = (f1, s1)" by (cases fs')
    from r fs fs' obtain dm bm
      where 1: "s1 = s0\<lparr>destination_mails := dm, skipped_folders_by_mailbox := bm\<rparr>"
      using destination_row_frame by blast
    from i fs obtain dm0 bm0
      where "s0 = s\<lparr>destination_mails := dm0, skipped_folders_by_mailbox := bm0\<rparr>" by auto
    with 1 have "s1 = s\<lparr>destination_mails := dm, skipped_folders_by_mailbox := bm\<rparr>" by simp
    with fs' show "?I fs'" by auto
  qed
  have init: "?I (f, s)"
  proof -
    have "s = s\<lparr>destination_mails := destination_mails s,
      skipped_folders_by_mailbox := skipped_folders_by_mailbox s\<rparr>" by simp
    then show ?thesis by (metis snd_conv)
  qed
  from for_each_invariant[where I = ?I, OF step init assms] show ?thesis by simp
qed

lemma destination_buffers_frame:
  "destination_buffers a dst name mails (f, s) = (out, (f', s')) \<Longrightarrow>
   \<exists>dm bm. s' = s\<lparr>destination_mails := dm, skipped_folders_by_mailbox := bm\<rparr>"
proof (induction a dst name mails "(f, s)" arbitrary: f s rule: destination_buffers.induct)
  case (1 a destination name mails)
  let ?k = "slice_end (buffer_size a) mails"
  have same: "s = s\<lparr>destination_mails := destination_mails s,
      skipped_folders_by_mailbox := skipped_folders_by_mailbox s\<rparr>" by simp
  show ?case
  proof (cases "mails = [] \<or> ?k = 0")
    case True
    with "1.prems" have "s' = s"
      by (auto simp: destination_buffers.simps[of a destination name mails] split: if_splits)
    with same show ?thesis by metis
  next
    case False
    obtain o1 f1 s1 where r: "for_each (destination_row a)
        (fetch destination name (take ?k mails)) (f, s) = (o1, (f1, s1))"
      by (metis prod.exhaust)
    from r obtain dm1 bm1
      where s1: "s1 = s\<lparr>destination_mails := dm1, skipped_folders_by_mailbox := bm1\<rparr>"
      using destination_rows_frame by blast
    show ?thesis
    proof (cases "o1 = Proceed \<or> o1 = Continue")
      case True
      with False "1.prems" r
      have rec: "destination_buffers a destination name (drop ?k mails) (f1, s1) = (out, (f', s'))"
        by (auto simp: destination_buffers.simps[of a destination name mails])
      have "\<exists>dm bm. s' = s1\<lparr>destination_mails := dm, skipped_folders_by_mailbox := bm\<rparr>"
      proof (cases "o1 = Proceed")
        case True
        from False have "mails \<noteq> []" "?k \<noteq> 0" by auto
        from "1.hyps"(1)[OF this r[symmetric] True rec] show ?thesis .
      next
        case False
        with True have c: "o1 = Continue" by simp
        from \<open>\<not> (mails = [] \<or> ?k = 0)\<close> have "mails \<noteq> []" "?k \<noteq> 0" by auto
        from "1.hyps"(2)[OF this r[symmetric] c rec] show ?thesis .
      qed
      then obtain dm bm
        where "s' = s1\<lparr>destination_mails := dm, skipped_folders_by_mailbox := bm\<rparr>" by blast
      with s1 have "s' = s\<lparr>destination_mails := dm, skipped_folders_by_mailbox := bm\<rparr>"
        by simp
      then show ?thesis by blast
    next
      case stop: False
      with False "1.prems" r have "s' = s1"
        by (cases o1) (auto simp: destination_buffers.simps[of a destination name mails])
      with s1 show ?thesis by blast
    qed
  qed
qed

lemma destination_folder_step_frame:
  assumes "destination_folder_step a dst sdl row (dd, ddb, s) = (out, (dd', ddb', s'))"
  shows "\<exists>dm bm. s' = s\<lparr>destination_mails := dm, skipped_folders_by_mailbox := bm\<rparr>"
proof -
  obtain flags delimiter name where row: "row = (flags, delimiter, name)" by (cases row)
  obtain o1 f1 s1 where b: "destination_buffers a dst name (imap_search dst name)
        (\<lparr>df_flags = flags, df_mails = [], df_size = 0\<rparr>, s) = (o1, (f1, s1))"
    by (metis prod.exhaust)
  then obtain dm1 bm1
    where s1: "s1 = s\<lparr>destination_mails := dm1, skipped_folders_by_mailbox := bm1\<rparr>"
    using destination_buffers_frame by blast
  have "s' = s\<lparr>destination_mails := destination_mails s,
          skipped_folders_by_mailbox := skipped_folders_by_mailbox s\<rparr> \<or>
        s' = s\<lparr>destination_mails := destination_mails s,
          skipped_folders_by_mailbox := skipped_folders_by_mailbox s + 1\<rparr> \<or>
        s' = s1"
    using assms row b
    by (auto simp: destination_folder_step_def Let_def
        split: if_splits option.splits sum.splits bool.splits)
  with s1 show ?thesis by blast
qed

lemma get_destination_folders_frame:
  assumes "for_each (destination_folder_step a dst sdl) rows (dd, ddb, s) = (out, (dd', ddb', s'))"
  shows "\<exists>dm bm. s' = s\<lparr>destination_mails := dm, skipped_folders_by_mailbox := bm\<rparr>"
proof -
  let ?I = "\<lambda>acc. \<exists>dm bm. snd (snd acc) =
      s\<lparr>destination_mails := dm, skipped_folders_by_mailbox := bm\<rparr>"
  have step: "\<And>x acc out acc'. x \<in> set rows \<Longrightarrow> ?I acc \<Longrightarrow>
      destination_folder_step a dst sdl x acc = (out, acc') \<Longrightarrow> ?I acc'"
  proof -
    fix x acc out acc'
    assume i: "?I acc" and r: "destination_folder_step a dst sdl x acc = (out, acc')"
    obtain d0 b0 s0 where acc: "acc = (d0, b0, s0)" by (cases acc)
    obtain d1 b1 s1 where acc': "acc' = (d1, b1, s1)" by (cases acc')
    from r acc acc' obtain dm bm
      where 1: "s1 = s0\<lparr>destination_mails := dm, skipped_folders_by_mailbox := bm\<rparr>"
      using destination_folder_step_frame by blast
    from i acc obtain dm0 bm0
      where "s0 = s\<lparr>destination_mails := dm0, skipped_folders_by_mailbox := bm0\<rparr>" by auto
    with 1 have "s1 = s\<lparr>destination_mails := dm, skipped_folders_by_mailbox := bm\<rparr>" by simp
    with acc' show "?I acc'" by auto
  qed
  have init: "?I (dd, ddb, s)"
  proof -
    have "s = s\<lparr>destination_mails := destination_mails s,
      skipped_folders_by_mailbox := skipped_folders_by_mailbox s\<rparr>" by simp
    then show ?thesis by (metis snd_conv)
  qed
  from for_each_invariant[where I = ?I, OF step init assms] show ?thesis by simp
qed

subsection \<open>List mode\<close>

lemma source_buffers_redirect:
  "source_buffers (a\<lparr>redirect := r\<rparr>) src name mails fs = source_buffers a src name mails fs"
proof (induction a src name mails fs rule: source_buffers.induct)
  case (1 a source name mails fs)
  show ?case
  proof (cases "mails = [] \<or> slice_end (buffer_size a) mails = 0")
    case True
    then show ?thesis
      by (auto simp: source_buffers.simps[of _ source name mails])
  next
    case False
    with "1.IH" show ?thesis
      by (simp add: source_buffers.simps[of _ source name mails])
  qed
qed

lemma redirect_fields:
  "source_mailbox (a\<lparr>redirect := r\<rparr>) = source_mailbox a"
  "skip_empty_folders (a\<lparr>redirect := r\<rparr>) = skip_empty_folders a"
  "buffer_size (a\<lparr>redirect := r\<rparr>) = buffer_size a"
  "incremental (a\<lparr>redirect := r\<rparr>) = incremental a"
  "list_flag (a\<lparr>redirect := r\<rparr>) = list_flag a"
  "source_root (a\<lparr>redirect := r\<rparr>) = source_root a"
  "destination_root (a\<lparr>redirect := r\<rparr>) = destination_root a"
  "ignore_quota (a\<lparr>redirect := r\<rparr>) = ignore_quota a"
  "arg_denied_flags (a\<lparr>redirect := r\<rparr>) = arg_denied_flags a"
  by simp_all

lemma source_folder_step_redirect:
  "source_folder_step (a\<lparr>redirect := r\<rparr>) src row acc = source_folder_step a src row acc"
  unfolding source_folder_step_def redirect_fields source_buffers_redirect by (rule refl)

lemma destination_row_redirect:
  "destination_row (a\<lparr>redirect := r\<rparr>) = destination_row a"
  unfolding destination_row_def redirect_fields by (rule refl)

lemma destination_buffers_redirect:
  "destination_buffers (a\<lparr>redirect := r\<rparr>) dst name mails fs =
   destination_buffers a dst name mails fs"
proof (induction a dst name mails fs rule: destination_buffers.induct)
  case (1 a destination name mails fs)
  let ?k = "slice_end (buffer_size a) mails"
  show ?case
  proof (cases "mails = [] \<or> ?k = 0")
    case True
    then show ?thesis
      by (auto simp: destination_buffers.simps[of _ destination name mails])
  next
    case False
    obtain o1 fs1 where r: "for_each (destination_row a)
        (fetch destination name (take ?k mails)) fs = (o1, fs1)"
      by (metis prod.exhaust)
    from False have ne: "mails \<noteq> []" "?k \<noteq> 0" by auto
    show ?thesis
    proof (cases o1)
      case Proceed
      from "1.IH"(1)[OF ne r[symmetric] Proceed] r Proceed False show ?thesis
        by (simp add: destination_buffers.simps[of _ destination name mails]
            destination_row_redirect)
    next
      case Continue
      from "1.IH"(2)[OF ne r[symmetric] Continue] r Continue False show ?thesis
        by (simp add: destination_buffers.simps[of _ destination name mails]
            destination_row_redirect)
    next
      case (Raise e)
      with r False show ?thesis
        by (simp add: destination_buffers.simps[of _ destination name mails]
            destination_row_redirect)
    next
      case Hang
      with r False show ?thesis
        by (simp add: destination_buffers.simps[of _ destination name mails]
            destination_row_redirect)
    qed
  qed
qed

lemma destination_folder_step_redirect:
  "destination_folder_step (a\<lparr>redirect := r\<rparr>) dst sd row acc =
   destination_folder_step a dst sd row acc"
  unfolding destination_folder_step_def redirect_fields destination_buffers_redirect
  by (rule refl)

lemma enumerate_destination_list:
  assumes "list_flag a"
  shows "enumerate_destination a denied src dst sd sdb s =
     (case for_each (destination_folder_step a dst sd)
             (imap_list_folders dst (destination_root a)) (None, [], s) of
        (Raise e, (dd, ddb, s')) \<Rightarrow> \<lparr>ending = Uncaught e, final = s'\<rparr>
      | (Hang, (dd, ddb, s')) \<Rightarrow> \<lparr>ending = Never, final = s'\<rparr>
      | (_, (dd, ddb, s')) \<Rightarrow> \<lparr>ending = Exit_list, final = s'\<rparr>)"
  using assms by (simp add: enumerate_destination_def split: prod.splits outcome.splits)

lemma enumerate_destination_list_redirect:
  assumes "list_flag a"
  shows "enumerate_destination (a\<lparr>redirect := r\<rparr>) denied src dst sd sdb s =
         enumerate_destination a denied src dst sd sdb s"
proof -
  have l: "list_flag (a\<lparr>redirect := r\<rparr>)" using assms by simp
  have s: "destination_folder_step (a\<lparr>redirect := r\<rparr>) dst sd =
           destination_folder_step a dst sd"
    by (intro ext) (rule destination_folder_step_redirect)
  show ?thesis
    unfolding enumerate_destination_list[OF l] enumerate_destination_list[OF assms] s
      redirect_fields by (rule refl)
qed

lemma enumerate_source_list_redirect:
  assumes "list_flag a"
  shows "enumerate_source (a\<lparr>redirect := r\<rparr>) denied src dst =
         enumerate_source a denied src dst"
proof -
  have s: "source_folder_step (a\<lparr>redirect := r\<rparr>) src = source_folder_step a src"
    by (intro ext) (rule source_folder_step_redirect)
  show ?thesis
    unfolding enumerate_source_def s redirect_fields
      enumerate_destination_list_redirect[OF assms] by (rule refl)
qed

lemma main_list_redirect:
  assumes "list_flag a"
  shows "main (a\<lparr>redirect := r\<rparr>) src dst = main a src dst"
proof -
  have p: "port_defaulting (a\<lparr>redirect := r\<rparr>) = (port_defaulting a)\<lparr>redirect := r\<rparr>"
    by (simp add: port_defaulting_eq)
  have l: "list_flag (port_defaulting a)" using assms by (simp add: port_defaulting_eq)
  have d: "denied_flags ((port_defaulting a)\<lparr>redirect := r\<rparr>) = denied_flags (port_defaulting a)"
    unfolding denied_flags_def redirect_fields by (rule refl)
  have q: "check_quota ((port_defaulting a)\<lparr>redirect := r\<rparr>) src dst =
           check_quota (port_defaulting a) src dst"
    unfolding check_quota_def redirect_fields by (rule refl)
  have f: "source_port ((port_defaulting a)\<lparr>redirect := r\<rparr>) = source_port (port_defaulting a)"
    "source_encryption ((port_defaulting a)\<lparr>redirect := r\<rparr>) = source_encryption (port_defaulting a)"
    "destination_port ((port_defaulting a)\<lparr>redirect := r\<rparr>) = destination_port (port_defaulting a)"
    "destination_encryption ((port_defaulting a)\<lparr>redirect := r\<rparr>) =
       destination_encryption (port_defaulting a)"
    "source_user ((port_defaulting a)\<lparr>redirect := r\<rparr>) = source_user (port_defaulting a)"
    "source_pass ((port_defaulting a)\<lparr>redirect := r\<rparr>) = source_pass (port_defaulting a)"
    "destination_user ((port_defaulting a)\<lparr>redirect := r\<rparr>) = destination_user (port_defaulting a)"
    "destination_pass ((port_defaulting a)\<lparr>redirect := r\<rparr>) = destination_pass (port_defaulting a)"
    by simp_all
  show ?thesis
    unfolding main_def Let_def p d q f enumerate_source_list_redirect[OF l] by (rule refl)
qed

lemma enumerate_destination_list_result:
  assumes "list_flag a" "commands s = []"
  shows "commands (final (enumerate_destination a denied src dst sd sdb s)) = [] \<and>
         (\<exists>e. ending (enumerate_destination a denied src dst sd sdb s) \<in>
                {Exit_list, Uncaught e, Never})"
proof -
  obtain o1 dd ddb s1 where f: "for_each (destination_folder_step a dst sd)
             (imap_list_folders dst (destination_root a)) (None, [], s) = (o1, (dd, ddb, s1))"
    by (metis prod.exhaust)
  then obtain dm bm
    where "s1 = s\<lparr>destination_mails := dm, skipped_folders_by_mailbox := bm\<rparr>"
    using get_destination_folders_frame by blast
  with assms(2) have "commands s1 = []" by simp
  with f assms(1) show ?thesis
    by (cases o1) (auto simp: enumerate_destination_list)
qed

lemma enumerate_source_list_result:
  assumes "list_flag a"
  shows "commands (final (enumerate_source a denied src dst)) = [] \<and>
         (\<exists>e. ending (enumerate_source a denied src dst) \<in> {Exit_list, Uncaught e, Never})"
proof (cases "start_imap_idle dst")
  case (Some e)
  then show ?thesis by (auto simp: enumerate_source_def)
next
  case None
  obtain o1 sd sdb s1 where f: "for_each (source_folder_step a src)
       (imap_list_folders src (source_root a)) (None, [], initial_state) = (o1, (sd, sdb, s1))"
    by (metis prod.exhaust)
  then obtain sm ne
    where "s1 = initial_state\<lparr>source_mails := sm, skipped_mails_no_envelope := ne\<rparr>"
    using get_source_folders_frame by blast
  then have c: "commands s1 = []" by simp
  show ?thesis
  proof (cases "o1 = Proceed \<or> o1 = Continue")
    case True
    show ?thesis
    proof (cases "start_imap_idle src")
      case (Some e)
      with None f c True show ?thesis by (auto simp: enumerate_source_def)
    next
      case n2: None
      from None n2 f True
      have "enumerate_source a denied src dst = enumerate_destination a denied src dst sd sdb s1"
        by (auto simp: enumerate_source_def)
      with enumerate_destination_list_result[OF assms c] show ?thesis by simp
    qed
  next
    case False
    with None f c show ?thesis by (cases o1) (auto simp: enumerate_source_def)
  qed
qed

text \<open>
  Claim C10: in list mode the process exits right after the two listings, before the
  redirection rules are looked at and before the transfer. With \<open>--list\<close> no run ends
  at the unresolved-redirection exit or in the transfer, none sends a command to the
  destination, and the redirection rules do not change the run at all.
\<close>

theorem list_mode_stops_before_redirections:
  assumes "list_flag a"
  shows "commands (final (main a src dst)) = [] \<and>
         ending (main a src dst) \<notin> {Exit_redirect, Finished, Aborted} \<and>
         main (a\<lparr>redirect := r\<rparr>) src dst = main a src dst"
proof -
  have l: "list_flag (port_defaulting a)" using assms by (simp add: port_defaulting_eq)
  have "commands (final (main a src dst)) = [] \<and>
         ending (main a src dst) \<notin> {Exit_redirect, Finished, Aborted}"
  proof (cases "logged_in a src dst")
    case False
    then show ?thesis by (simp add: main_not_logged_in)
  next
    case True
    show ?thesis
    proof (cases "check_quota (port_defaulting a) src dst")
      case (Inl e)
      with True show ?thesis by (simp add: main_logged_in)
    next
      case (Inr b)
      show ?thesis
      proof (cases b)
        case True
        with Inr \<open>logged_in a src dst\<close> show ?thesis by (simp add: main_logged_in)
      next
        case False
        with Inr \<open>logged_in a src dst\<close>
        have "main a src dst = enumerate_source (port_defaulting a)
            (denied_flags (port_defaulting a)) src dst"
          by (simp add: main_logged_in)
        with enumerate_source_list_result[OF l, of "denied_flags (port_defaulting a)" src dst]
        show ?thesis by auto
      qed
    qed
  qed
  with main_list_redirect[OF assms] show ?thesis by simp
qed

theorem list_mode_stops_before_redirections_witness:
  "list_flag unresolved_rule_args \<and>
   ending (main unresolved_rule_args demo_source demo_destination) = Exit_list \<and>
   commands (final (main unresolved_rule_args demo_source demo_destination)) = [] \<and>
   ending (main (unresolved_rule_args\<lparr>list_flag := False\<rparr>) demo_source demo_destination)
     = Exit_redirect"
proof -
  have l: "list_flag unresolved_rule_args" by (simp add: unresolved_rule_args_def)
  have e: "ending (main unresolved_rule_args demo_source demo_destination) = Exit_list"
    by code_simp
  have n: "ending (main (unresolved_rule_args\<lparr>list_flag := False\<rparr>) demo_source demo_destination)
     = Exit_redirect"
    by code_simp
  from list_mode_stops_before_redirections[OF l, of demo_source demo_destination] l e n
  show ?thesis by simp
qed

subsection \<open>Exit status\<close>

lemma redirect_not_found:
  assumes "redirect a = Some rules"
    and "custom_links (map fst sdb) rules ([], []) = Inr (redirections, not_found)"
    and "not_found \<noteq> []"
  shows "redirect_and_transfer a denied src dst sd dd sdb ddb s =
         \<lparr>ending = Exit_redirect, final = s\<rparr>"
  using assms by (simp add: redirect_and_transfer_def)

lemma main_quota_abort:
  assumes "logged_in a src dst"
    and "imap_quota src = Some (su, sl)" "imap_quota dst = Some (du, dl)"
    and "sl \<noteq> 0" "dl \<noteq> 0" "dl - du < su" "\<not> ignore_quota a"
  shows "main a src dst = \<lparr>ending = Exit_quota, final = initial_state\<rparr>"
proof -
  have "ignore_quota (port_defaulting a) = ignore_quota a"
    by (simp add: port_defaulting_eq)
  with assms have "check_quota (port_defaulting a) src dst = Inr True"
    by (simp add: check_quota_insufficient)
  with assms(1) show ?thesis by (simp add: main_logged_in)
qed

text \<open>
  Claim C7, as stated, fails: a refused login ends the run at the \<open>exit()\<close> of line 212,
  which passes no status, so the exit status is 0.
\<close>

theorem login_failure_exit_status:
  "ending (main default_args refusing_source demo_destination) = Exit_login \<and>
   exit_status (ending (main default_args refusing_source demo_destination)) = Some 0"
  by code_simp

text \<open>
  Claim C7, amended: a connection or login failure on either side, an insufficient quota
  without \<open>--ignore-quota\<close> and an unresolved redirection rule each end the run at an
  \<open>exit()\<close> call without a status; the exit status of these endings is 0, as it is for
  a run that completes.
\<close>

theorem abort_paths_exit_status:
  "(\<not> logged_in a src dst \<longrightarrow> ending (main a src dst) = Exit_login) \<and>
   (logged_in a src dst \<and> imap_quota src = Some (su, sl) \<and> imap_quota dst = Some (du, dl) \<and>
      sl \<noteq> 0 \<and> dl \<noteq> 0 \<and> dl - du < su \<and> \<not> ignore_quota a \<longrightarrow>
    ending (main a src dst) = Exit_quota) \<and>
   (redirect a = Some rules \<and>
      custom_links (map fst sdb) rules ([], []) = Inr (redirections, not_found) \<and>
      not_found \<noteq> [] \<longrightarrow>
    ending (redirect_and_transfer a denied src dst sd dd sdb ddb s) = Exit_redirect) \<and>
   (ending (main a src dst) \<in> {Exit_login, Exit_quota, Exit_redirect, Finished} \<longrightarrow>
    exit_status (ending (main a src dst)) = Some 0)"
  by (auto simp: main_not_logged_in main_quota_abort redirect_not_found)

theorem abort_paths_exit_status_witness:
  "\<not> logged_in default_args refusing_source demo_destination \<and>
   ending (main default_args refusing_source demo_destination) = Exit_login \<and>
   exit_status (ending (main default_args refusing_source demo_destination)) = Some 0 \<and>
   logged_in default_args quota_source quota_destination \<and>
   ending (main default_args quota_source quota_destination) = Exit_quota \<and>
   exit_status (ending (main default_args quota_source quota_destination)) = Some 0 \<and>
   custom_links (map fst [(''INBOX'', inbox_manifest)]) [''Missing:Elsewhere''] ([], []) =
     Inr ([(''Missing'', ''Elsewhere'')], [''Missing'']) \<and>
   ending (redirect_and_transfer (unresolved_rule_args\<lparr>list_flag := False\<rparr>) [] demo_source
             demo_destination (Some ''/'') (Some ''/'') [(''INBOX'', inbox_manifest)] []
             initial_state)
     = Exit_redirect"
proof -
  have n: "\<not> logged_in default_args refusing_source demo_destination"
    by (simp add: logged_in_def port_defaulting_eq login_def connect_def refusing_source_def
        demo_source_def)
  have l: "logged_in default_args quota_source quota_destination"
    by (simp add: logged_in_def port_defaulting_eq login_def connect_def quota_source_def
        quota_destination_def demo_source_def demo_destination_def)
  have q: "imap_quota quota_source = Some (10000, 20000)"
    "imap_quota quota_destination = Some (15000, 20000)"
    by (simp_all add: quota_source_def quota_destination_def)
  have i: "\<not> ignore_quota default_args" by (simp add: default_args_def)
  have r: "redirect (unresolved_rule_args\<lparr>list_flag := False\<rparr>) = Some [''Missing:Elsewhere'']"
    by (simp add: unresolved_rule_args_def)
  have c: "custom_links (map fst [(''INBOX'', inbox_manifest)]) [''Missing:Elsewhere''] ([], []) =
     Inr ([(''Missing'', ''Elsewhere'')], [''Missing''])"
    by (simp add: endswith_def startswith_def)
  note t1 = abort_paths_exit_status[where a = default_args and src = refusing_source
      and dst = demo_destination]
  note t2 = abort_paths_exit_status[where a = default_args and src = quota_source
      and dst = quota_destination and su = 10000 and sl = 20000 and du = 15000 and dl = 20000]
  note t3 = abort_paths_exit_status[where a = "unresolved_rule_args\<lparr>list_flag := False\<rparr>"
      and rules = "[''Missing:Elsewhere'']" and sdb = "[(''INBOX'', inbox_manifest)]"
      and redirections = "[(''Missing'', ''Elsewhere'')]" and not_found = "[''Missing'']"
      and denied = "[]" and src = demo_source and dst = demo_destination
      and sd = "Some ''/''" and dd = "Some ''/''" and ddb = "[]" and s = initial_state]
  from t1 n have 1: "ending (main default_args refusing_source demo_destination) = Exit_login"
    "exit_status (ending (main default_args refusing_source demo_destination)) = Some 0"
    by simp_all
  from t2 l q i have 2: "ending (main default_args quota_source quota_destination) = Exit_quota"
    "exit_status (ending (main default_args quota_source quota_destination)) = Some 0"
    by simp_all
  from t3 r c have 3: "ending (redirect_and_transfer (unresolved_rule_args\<lparr>list_flag := False\<rparr>)
      [] demo_source demo_destination (Some ''/'') (Some ''/'') [(''INBOX'', inbox_manifest)] []
      initial_state) = Exit_redirect"
    by simp
  from n l c 1 2 3 show ?thesis by simp
qed

subsection \<open>One message of the transfer\<close>

lemma contains_occurs: "contains s needle \<longleftrightarrow> occurs_in needle s"
proof (induction s)
  case Nil
  then show ?case by (auto simp: occurs_in_def)
next
  case (Cons c cs)
  show ?case
  proof
    assume "contains (c # cs) needle"
    then consider "prefix needle (c # cs)" | "contains cs needle" by auto
    then show "occurs_in needle (c # cs)"
    proof cases
      case 1
      then obtain after where "c # cs = needle @ after" by (auto simp: prefix_def)
      then have "c # cs = [] @ needle @ after" by simp
      then show ?thesis unfolding occurs_in_def by blast
    next
      case 2
      with Cons.IH obtain before after where "cs = before @ needle @ after"
        by (auto simp: occurs_in_def)
      then have "c # cs = (c # before) @ needle @ after" by simp
      then show ?thesis unfolding occurs_in_def by blast
    qed
  next
    assume "occurs_in needle (c # cs)"
    then obtain before after where e: "c # cs = before @ needle @ after"
      by (auto simp: occurs_in_def)
    show "contains (c # cs) needle"
    proof (cases before)
      case Nil
      with e have "prefix needle (c # cs)" by (simp add: prefix_def)
      then show ?thesis by simp
    next
      case (Cons b bs)
      with e have "cs = bs @ needle @ after" by simp
      then have "occurs_in needle cs" unfolding occurs_in_def by blast
      with Cons.IH show ?thesis by simp
    qed
  qed
qed

lemma success_recognised:
  "list_ex (\<lambda>msg. contains (lower status) msg) success_messages \<longleftrightarrow> recognised status"
  by (simp add: success_messages_def recognised_def contains_occurs)

lemma append_failed_result:
  "append_failed a folder row data e s =
     (if abort_on_error a then Raise KeyboardInterrupt else Proceed,
      s\<lparr>errors := errors s @
           [\<lparr>e_size = Beautysized (row_size row), e_subject = row_subject row,
             e_exception = e, e_folder = folder, e_date = INTERNALDATE data,
             e_id = decoded_id (row_msg_id row)\<rparr>],
        processed := processed s + 1\<rparr>)"
  by (simp add: append_failed_def Let_def)

lemma decoded_unknown: "decoded_id (Some ''(unknown)'') = Decoded ''(unknown)''"
  by code_simp

lemma latin1_reply_undecodable: "decode latin1_reply = None"
  by code_simp

lemma latin1_reply_unrecognised: "\<not> recognised latin1_reply"
  unfolding success_recognised[symmetric] by code_simp

text \<open>
  Claim C9 says that a response without \<open>append completed\<close> or \<open>(success)\<close> is recorded
  as an entry of \<open>errors\<close> and that the transfer then goes on. Line 586 decodes the
  response while it builds the message of the \<open>IMAPClientError\<close>; for a response that is
  not UTF-8, \<open>status.decode()\<close> raises \<open>UnicodeDecodeError\<close>, which the handler of line 588
  does not catch. The \<open>finally\<close> clause counts the message as processed, no entry is
  recorded, and the run ends there with the traceback, although \<open>--abort-on-error\<close> is
  not set. The handler itself guards the same call on the message id (lines 591 to 594).
\<close>

theorem undecodable_reply_raises:
  "\<not> recognised latin1_reply \<and> decode latin1_reply = None \<and>
   \<not> abort_on_error sized_args \<and>
   append_mail sized_args [] latin1_destination ''INBOX'' sample_row mail_with_envelope
     enumerated_state =
     (Raise UnicodeDecodeError,
      enumerated_state
        \<lparr>commands := [APPEND ''INBOX'' ''body''
                        [backslash # ''Seen'', backslash # ''Flagged'', backslash # ''Recent'']
                        ''d1''],
         processed := 1\<rparr>) \<and>
   ending (main sized_args single_source latin1_destination) = Uncaught UnicodeDecodeError \<and>
   errors (final (main sized_args single_source latin1_destination)) = [] \<and>
   copied_mails (final (main sized_args single_source latin1_destination)) = 0 \<and>
   processed (final (main sized_args single_source latin1_destination)) = 1"
proof -
  have 1: "append_mail sized_args [] latin1_destination ''INBOX'' sample_row mail_with_envelope
     enumerated_state =
     (Raise UnicodeDecodeError,
      enumerated_state
        \<lparr>commands := [APPEND ''INBOX'' ''body''
                        [backslash # ''Seen'', backslash # ''Flagged'', backslash # ''Recent'']
                        ''d1''],
         processed := 1\<rparr>)"
    by code_simp
  have 2: "ending (main sized_args single_source latin1_destination) =
      Uncaught UnicodeDecodeError"
    by code_simp
  have 3: "errors (final (main sized_args single_source latin1_destination)) = []"
    by code_simp
  have 4: "copied_mails (final (main sized_args single_source latin1_destination)) = 0"
    by code_simp
  have 5: "processed (final (main sized_args single_source latin1_destination)) = 1"
    by code_simp
  have 6: "\<not> abort_on_error sized_args" by (simp add: sized_args_def default_args_def)
  from latin1_reply_unrecognised latin1_reply_undecodable 1 2 3 4 5 6 show ?thesis by simp
qed

text \<open>
  What an \<open>APPEND\<close> that is issued leads to: \<open>copied_mails\<close> grows exactly when the
  reply is a response that contains, without regard to case, \<open>append completed\<close> or
  \<open>(success)\<close>. Another response, when it is UTF-8, is an \<open>IMAPClientError\<close> with the
  message \<open>Unknown success message: ...\<close>; it is recorded as an entry with the size,
  subject, folder, date, id and exception of the message, and the loop goes on unless
  \<open>--abort-on-error\<close> is set, in which case \<open>KeyboardInterrupt\<close> is raised. Another
  response that is not UTF-8 raises \<open>UnicodeDecodeError\<close> and records nothing.
\<close>

theorem append_reply_handling:
  assumes "append_mail a denied dst folder row data s = (out, s')"
    and "\<not> line_too_long a (RFC822 data)"
  shows "commands s' = commands s @
           [APPEND folder (RFC822 data) (append_flags denied (FLAGS data)) (INTERNALDATE data)] \<and>
         (copied_mails s' = copied_mails s + 1 \<longleftrightarrow>
            (\<exists>status. imap_reply dst (commands s') = Ok status \<and> recognised status)) \<and>
         (copied_mails s' \<noteq> copied_mails s + 1 \<longrightarrow> copied_mails s' = copied_mails s) \<and>
         ((\<exists>status. imap_reply dst (commands s') = Ok status \<and> recognised status) \<longrightarrow>
            errors s' = errors s \<and> out = Proceed) \<and>
         (\<forall>status. imap_reply dst (commands s') = Ok status \<and> \<not> recognised status \<longrightarrow>
            (case decode status of
               Some message \<Rightarrow>
                 errors s' = errors s @
                   [\<lparr>e_size = Beautysized (row_size row), e_subject = row_subject row,
                     e_exception = IMAPClientError (''Unknown success message: '' @ message),
                     e_folder = folder, e_date = INTERNALDATE data,
                     e_id = decoded_id (row_msg_id row)\<rparr>] \<and>
                 out = (if abort_on_error a then Raise KeyboardInterrupt else Proceed)
             | None \<Rightarrow> errors s' = errors s \<and> out = Raise UnicodeDecodeError))"
proof -
  let ?c = "commands s @
           [APPEND folder (RFC822 data) (append_flags denied (FLAGS data)) (INTERNALDATE data)]"
  show ?thesis
  proof (cases "imap_reply dst ?c")
    case (Ok status)
    show ?thesis
    proof (cases "recognised status")
      case True
      with Ok assms have "out = Proceed"
        "s' = s\<lparr>commands := ?c, copied_mails := copied_mails s + 1, processed := processed s + 1\<rparr>"
        by (auto simp: append_mail_def Let_def success_recognised)
      with Ok True show ?thesis by simp
    next
      case False
      show ?thesis
      proof (cases "decode status")
        case None
        with Ok False assms have "out = Raise UnicodeDecodeError"
          "s' = s\<lparr>commands := ?c, processed := processed s + 1\<rparr>"
          by (auto simp: append_mail_def Let_def success_recognised)
        with Ok False None show ?thesis by simp
      next
        case (Some message)
        with Ok False assms have "(out, s') = append_failed a folder row data
            (IMAPClientError (''Unknown success message: '' @ message)) (s\<lparr>commands := ?c\<rparr>)"
          by (auto simp: append_mail_def Let_def success_recognised)
        with Ok False Some show ?thesis by (simp add: append_failed_result)
      qed
    qed
  next
    case (No e)
    with assms have "(out, s') = append_failed a folder row data
          (IMAPClientError e) (s\<lparr>commands := ?c\<rparr>)"
      by (auto simp: append_mail_def Let_def)
    with No show ?thesis by (simp add: append_failed_result)
  qed
qed

theorem append_reply_handling_witness:
  "\<not> line_too_long default_args (RFC822 mail_with_envelope) \<and>
   copied_mails (snd (append_mail default_args [] demo_destination ''INBOX'' sample_row
      mail_with_envelope enumerated_state)) = 1 \<and>
   errors (snd (append_mail default_args [] demo_destination ''INBOX'' sample_row
      mail_with_envelope enumerated_state)) = [] \<and>
   copied_mails (snd (append_mail default_args [] terse_destination ''INBOX'' sample_row
      mail_with_envelope enumerated_state)) = 0 \<and>
   errors (snd (append_mail default_args [] terse_destination ''INBOX'' sample_row
      mail_with_envelope enumerated_state)) =
     [\<lparr>e_size = Beautysized 1000, e_subject = Decode_mime ''hi'',
       e_exception = IMAPClientError ''Unknown success message: OK'',
       e_folder = ''INBOX'', e_date = ''d1'', e_id = Decoded ''<1@x>''\<rparr>] \<and>
   fst (append_mail default_args [] terse_destination ''INBOX'' sample_row
      mail_with_envelope enumerated_state) = Proceed"
proof -
  let ?good = "append_mail default_args [] demo_destination ''INBOX'' sample_row
      mail_with_envelope enumerated_state"
  let ?bad = "append_mail default_args [] terse_destination ''INBOX'' sample_row
      mail_with_envelope enumerated_state"
  have n: "\<not> line_too_long default_args (RFC822 mail_with_envelope)"
    by (simp add: line_too_long_def default_args_def)
  have s0: "copied_mails enumerated_state = 0" "errors enumerated_state = []"
    "commands enumerated_state = []"
    by (simp_all add: enumerated_state_def initial_state_def)
  have ab: "\<not> abort_on_error default_args" by (simp add: default_args_def)
  have row: "row_size sample_row = 1000" "row_subject sample_row = Decode_mime ''hi''"
    by (simp_all add: sample_row_def)
  have id: "decoded_id (row_msg_id sample_row) = Decoded ''<1@x>''" by code_simp
  have dec: "decode ''OK'' = Some ''OK''" by code_simp
  have m: "INTERNALDATE mail_with_envelope = ''d1''" by (simp add: mail_with_envelope_def)
  have yes: "recognised ''[APPENDUID 1 1] Append completed.''"
    unfolding success_recognised[symmetric] by code_simp
  have no: "\<not> recognised ''OK''"
    unfolding success_recognised[symmetric] by code_simp
  note g = append_reply_handling[OF prod.collapse[symmetric] n, of "[]" demo_destination "''INBOX''"
      sample_row enumerated_state]
  note b = append_reply_handling[OF prod.collapse[symmetric] n, of "[]" terse_destination "''INBOX''"
      sample_row enumerated_state]
  have rg: "imap_reply demo_destination (commands (snd ?good)) =
      Ok ''[APPENDUID 1 1] Append completed.''"
    by (simp add: demo_destination_def)
  have rb: "imap_reply terse_destination (commands (snd ?bad)) = Ok ''OK''"
    by (simp add: terse_destination_def)
  from g rg yes have 1: "copied_mails (snd ?good) = 1" "errors (snd ?good) = []"
    using s0 by auto
  from b rb no have 2: "copied_mails (snd ?bad) = 0"
    "errors (snd ?bad) = [\<lparr>e_size = Beautysized 1000, e_subject = Decode_mime ''hi'',
       e_exception = IMAPClientError ''Unknown success message: OK'',
       e_folder = ''INBOX'', e_date = ''d1'', e_id = Decoded ''<1@x>''\<rparr>]"
    "fst ?bad = Proceed"
    using s0 ab row id dec m by auto
  from n 1 2 show ?thesis by simp
qed

lemma append_mail_counts:
  assumes "append_mail a denied dst folder row data s = (out, s')"
  shows "processed s' = processed s + 1 \<and> source_mails s' = source_mails s \<and>
         (out \<noteq> Raise UnicodeDecodeError \<longrightarrow> tally s' = tally s + 1) \<and>
         (out = Proceed \<or> out = Continue \<or> out = Raise KeyboardInterrupt \<or>
          out = Raise UnicodeDecodeError)"
proof (cases "line_too_long a (RFC822 data)")
  case True
  with assms show ?thesis by (auto simp: append_mail_def tally_def append_errors_def)
next
  case False
  let ?c = "commands s @
           [APPEND folder (RFC822 data) (append_flags denied (FLAGS data)) (INTERNALDATE data)]"
  show ?thesis
  proof (cases "imap_reply dst ?c")
    case (Ok status)
    with False assms show ?thesis
      by (auto simp: append_mail_def Let_def append_failed_result tally_def append_errors_def
          split: if_splits option.splits)
  next
    case (No e)
    with False assms show ?thesis
      by (auto simp: append_mail_def Let_def append_failed_result tally_def append_errors_def
          split: if_splits)
  qed
qed

lemma transfer_mail_lookup_failed:
  assumes "source_mails s \<noteq> 0" "map_of (sf_mails sf) mail_id = None"
  shows "transfer_mail a denied dst ddb sf folder (mail_id, data) s =
         lookup_failed folder mail_id s"
  using assms by (simp add: transfer_mail_def)

lemma transfer_mail_without_limit:
  assumes "max_mail_size a = None" "source_mails s \<noteq> 0"
    and "map_of (sf_mails sf) mail_id = Some row" "row_size row \<noteq> 0"
  shows "transfer_mail a denied dst ddb sf folder (mail_id, data) s = (Raise TypeError, s)"
  using assms by (simp add: transfer_mail_def)

lemma transfer_mail_found:
  assumes "transfer_mail a denied dst ddb sf folder (mail_id, data) s = (out, s')"
    and "map_of (sf_mails sf) mail_id = Some row"
    and "out \<noteq> Raise TypeError" "out \<noteq> Raise ZeroDivisionError" "\<not> dry_run a"
  shows "processed s' = processed s + 1 \<and> source_mails s' = source_mails s \<and>
         (out \<noteq> Raise UnicodeDecodeError \<longrightarrow> tally s' = tally s + 1)"
proof -
  from assms(1,4) have sm: "source_mails s \<noteq> 0"
    by (auto simp: transfer_mail_def split: if_splits)
  show ?thesis
  proof (cases "row_size row = 0")
    case True
    with assms(1,2) sm show ?thesis
      by (auto simp: transfer_mail_def tally_def append_errors_def)
  next
    case False
    with assms(1,2,3) sm obtain limit where l: "max_mail_size a = Some limit"
      by (cases "max_mail_size a") (auto simp: transfer_mail_def)
    show ?thesis
    proof (cases "row_size row > limit \<or>
                  (incremental a \<and> already_there ddb folder (row_msg_id row))")
      case True
      with assms(1,2) sm False l show ?thesis
        by (auto simp: transfer_mail_def tally_def append_errors_def split: if_splits)
    next
      case skip: False
      with assms(1,2,5) sm False l
      have "append_mail a denied dst folder row data s = (out, s')"
        by (auto simp: transfer_mail_def split: if_splits)
      then show ?thesis using append_mail_counts by blast
    qed
  qed
qed

text \<open>
  Claim C3, as stated, fails for a message that the manifest does not hold: the handler
  of the failed lookup records the entry with the \<open>(unknown)\<close> placeholders and
  continues, and \<open>processed\<close> stays as it was.
\<close>

theorem lookup_failure_leaves_processed:
  "transfer_mail (default_args\<lparr>max_mail_size := Some 5000\<rparr>) [] demo_destination [] inbox_manifest
     ''INBOX'' (2, mail_without_envelope) enumerated_state =
   (Continue,
    enumerated_state\<lparr>errors :=
      [\<lparr>e_size = Unknown_size, e_subject = Text ''(unknown)'', e_exception = KeyError (UID 2),
        e_folder = ''INBOX'', e_date = ''(unknown)'', e_id = Decoded ''(unknown)''\<rparr>]\<rparr>) \<and>
   processed (snd (transfer_mail (default_args\<lparr>max_mail_size := Some 5000\<rparr>) [] demo_destination
     [] inbox_manifest ''INBOX'' (2, mail_without_envelope) enumerated_state)) =
   processed enumerated_state"
  by (simp add: transfer_mail_def lookup_failed_def decoded_unknown inbox_manifest_def
      enumerated_state_def initial_state_def)

text \<open>
  Claim C3, amended: a message of the transfer phase whose manifest lookup succeeds
  raises \<open>processed\<close> by exactly one, whether it is copied, skipped by a rule of the
  ladder or fails in \<open>APPEND\<close> (the ladder itself being evaluated without
  \<open>TypeError\<close> or \<open>ZeroDivisionError\<close>); when the lookup fails, the entry with the
  \<open>(unknown)\<close> placeholders is recorded and \<open>processed\<close> is left as it is.
\<close>

theorem processed_once_per_manifest_message:
  assumes "transfer_mail a denied dst ddb sf folder (mail_id, data) s = (out, s')"
    and "out \<noteq> Raise TypeError" "out \<noteq> Raise ZeroDivisionError" "\<not> dry_run a"
  shows "(case map_of (sf_mails sf) mail_id of
            Some row \<Rightarrow> processed s' = processed s + 1
          | None \<Rightarrow>
              processed s' = processed s \<and> out = Continue \<and>
              errors s' = errors s @
                [\<lparr>e_size = Unknown_size, e_subject = Text ''(unknown)'',
                  e_exception = KeyError (UID mail_id), e_folder = folder,
                  e_date = ''(unknown)'', e_id = Decoded ''(unknown)''\<rparr>])"
proof (cases "map_of (sf_mails sf) mail_id")
  case None
  from assms(1,3) have "source_mails s \<noteq> 0"
    by (auto simp: transfer_mail_def split: if_splits)
  with None assms(1) have "(out, s') = lookup_failed folder mail_id s"
    by (simp add: transfer_mail_lookup_failed)
  with None show ?thesis by (simp add: lookup_failed_def decoded_unknown)
next
  case (Some row)
  with transfer_mail_found[OF assms(1) Some assms(2,3,4)] show ?thesis by simp
qed

theorem processed_once_per_manifest_message_witness:
  "\<not> dry_run (default_args\<lparr>max_mail_size := Some 5000\<rparr>) \<and>
   fst (transfer_mail (default_args\<lparr>max_mail_size := Some 5000\<rparr>) [] demo_destination []
          inbox_manifest ''INBOX'' (1, mail_with_envelope) enumerated_state) = Proceed \<and>
   map_of (sf_mails inbox_manifest) 1 = Some sample_row \<and>
   processed (snd (transfer_mail (default_args\<lparr>max_mail_size := Some 5000\<rparr>) [] demo_destination []
          inbox_manifest ''INBOX'' (1, mail_with_envelope) enumerated_state)) = 1 \<and>
   map_of (sf_mails inbox_manifest) 2 = None \<and>
   processed (snd (transfer_mail (default_args\<lparr>max_mail_size := Some 5000\<rparr>) [] demo_destination []
          inbox_manifest ''INBOX'' (2, mail_without_envelope) enumerated_state)) = 0"
proof -
  let ?a = "default_args\<lparr>max_mail_size := Some 5000\<rparr>"
  let ?one = "transfer_mail ?a [] demo_destination [] inbox_manifest ''INBOX''
      (1, mail_with_envelope) enumerated_state"
  let ?two = "transfer_mail ?a [] demo_destination [] inbox_manifest ''INBOX''
      (2, mail_without_envelope) enumerated_state"
  have d: "\<not> dry_run ?a" by (simp add: default_args_def)
  have o1: "fst ?one = Proceed" by code_simp
  have o2: "fst ?two = Continue" by code_simp
  have m1: "map_of (sf_mails inbox_manifest) 1 = Some sample_row"
    by (simp add: inbox_manifest_def sample_row_def)
  have m2: "map_of (sf_mails inbox_manifest) 2 = None"
    by (simp add: inbox_manifest_def)
  have p0: "processed enumerated_state = 0"
    by (simp add: enumerated_state_def initial_state_def)
  have 1: "processed (snd ?one) = 1"
    using processed_once_per_manifest_message[OF prod.collapse[symmetric] _ _ d,
        of "[]" demo_destination "[]" inbox_manifest "''INBOX''" 1 mail_with_envelope
          enumerated_state] o1 m1 p0 by simp
  have 2: "processed (snd ?two) = 0"
    using processed_once_per_manifest_message[OF prod.collapse[symmetric] _ _ d,
        of "[]" demo_destination "[]" inbox_manifest "''INBOX''" 2 mail_without_envelope
          enumerated_state] o2 m2 p0 by simp
  from d o1 m1 1 m2 2 show ?thesis by simp
qed

text \<open>
  Claim C5 says that without \<open>--max-mail-size\<close> the ladder never fails and skips no
  message for its size. The option is then \<open>None\<close>, the comparison
  \<open>size > args.max_mail_size\<close> raises \<open>TypeError\<close> for the first message of a size other
  than 0, and nothing catches it: the sample run ends there, with nothing copied.
\<close>

theorem unset_max_mail_size_raises:
  "max_mail_size default_args = None \<and>
   ending (main default_args demo_source demo_destination) = Uncaught TypeError \<and>
   copied_mails (final (main default_args demo_source demo_destination)) = 0 \<and>
   commands (final (main default_args demo_source demo_destination)) = []"
  by code_simp

subsection \<open>The phases of a run\<close>

lemma port_defaulting_simps [simp]:
  "source_root (port_defaulting a) = source_root a"
  "destination_root (port_defaulting a) = destination_root a"
  "list_flag (port_defaulting a) = list_flag a"
  "dry_run (port_defaulting a) = dry_run a"
  "redirect (port_defaulting a) = redirect a"
  "arg_denied_flags (port_defaulting a) = arg_denied_flags a"
  by (simp_all add: port_defaulting_eq)

lemma denied_flags_port_defaulting [simp]:
  "denied_flags (port_defaulting a) = denied_flags a"
  by (simp add: denied_flags_def)

lemma enumerate_destination_decomposition:
  assumes "commands s1 = []"
  shows "(commands (final (enumerate_destination a denied src dst sd sdb s1)) = [] \<and>
          ending (enumerate_destination a denied src dst sd sdb s1) \<notin>
            {Finished, Aborted, Exit_redirect}) \<or>
         (\<exists>dd ddb s2.
            for_each (destination_folder_step a dst sd)
              (imap_list_folders dst (destination_root a)) (None, [], s1) =
              (Proceed, (dd, ddb, s2)) \<and>
            \<not> list_flag a \<and>
            enumerate_destination a denied src dst sd sdb s1 =
              redirect_and_transfer a denied src dst sd dd sdb ddb s2)"
proof -
  obtain o2 dd ddb s2 where f: "for_each (destination_folder_step a dst sd)
             (imap_list_folders dst (destination_root a)) (None, [], s1) = (o2, (dd, ddb, s2))"
    by (metis prod.exhaust)
  then obtain dm bm
    where "s2 = s1\<lparr>destination_mails := dm, skipped_folders_by_mailbox := bm\<rparr>"
    using get_destination_folders_frame by blast
  with assms have c: "commands s2 = []" by simp
  from for_each_outcome[OF f] consider "o2 = Proceed" | "o2 = Hang" | e where "o2 = Raise e"
    by blast
  then show ?thesis
  proof cases
    case 1
    with f c show ?thesis by (cases "list_flag a") (auto simp: enumerate_destination_def)
  next
    case 2
    with f c show ?thesis by (auto simp: enumerate_destination_def)
  next
    case 3
    with f c show ?thesis by (auto simp: enumerate_destination_def)
  qed
qed

lemma enumerate_source_decomposition:
  "(commands (final (enumerate_source a denied src dst)) = [] \<and>
    ending (enumerate_source a denied src dst) \<notin> {Finished, Aborted, Exit_redirect}) \<or>
   (\<exists>sd sdb s1 dd ddb s2.
      for_each (source_folder_step a src) (imap_list_folders src (source_root a))
        (None, [], initial_state) = (Proceed, (sd, sdb, s1)) \<and>
      for_each (destination_folder_step a dst sd)
        (imap_list_folders dst (destination_root a)) (None, [], s1) =
        (Proceed, (dd, ddb, s2)) \<and>
      \<not> list_flag a \<and>
      enumerate_source a denied src dst =
        redirect_and_transfer a denied src dst sd dd sdb ddb s2)"
proof (cases "start_imap_idle dst")
  case (Some e)
  then show ?thesis by (auto simp: enumerate_source_def)
next
  case None
  obtain o1 sd sdb s1 where f: "for_each (source_folder_step a src)
       (imap_list_folders src (source_root a)) (None, [], initial_state) = (o1, (sd, sdb, s1))"
    by (metis prod.exhaust)
  then obtain sm ne
    where "s1 = initial_state\<lparr>source_mails := sm, skipped_mails_no_envelope := ne\<rparr>"
    using get_source_folders_frame by blast
  then have c: "commands s1 = []" by simp
  from for_each_outcome[OF f] consider "o1 = Proceed" | "o1 = Hang" | e where "o1 = Raise e"
    by blast
  then show ?thesis
  proof cases
    case 1
    show ?thesis
    proof (cases "start_imap_idle src")
      case (Some e)
      with None f c 1 show ?thesis by (auto simp: enumerate_source_def)
    next
      case n2: None
      from None n2 f 1
      have "enumerate_source a denied src dst = enumerate_destination a denied src dst sd sdb s1"
        by (auto simp: enumerate_source_def)
      with enumerate_destination_decomposition[OF c, of a denied src dst sd sdb] f 1
      show ?thesis by auto
    qed
  next
    case 2
    with None f c show ?thesis by (auto simp: enumerate_source_def)
  next
    case 3
    with None f c show ?thesis by (auto simp: enumerate_source_def)
  qed
qed

lemma main_decomposition:
  "(commands (final (main a src dst)) = [] \<and>
    ending (main a src dst) \<notin> {Finished, Aborted, Exit_redirect}) \<or>
   (\<exists>sd sdb s1 dd ddb s2.
      for_each (source_folder_step (port_defaulting a) src)
        (imap_list_folders src (source_root a)) (None, [], initial_state) =
        (Proceed, (sd, sdb, s1)) \<and>
      for_each (destination_folder_step (port_defaulting a) dst sd)
        (imap_list_folders dst (destination_root a)) (None, [], s1) =
        (Proceed, (dd, ddb, s2)) \<and>
      \<not> list_flag a \<and>
      main a src dst =
        redirect_and_transfer (port_defaulting a) (denied_flags a) src dst sd dd sdb ddb s2)"
proof (cases "logged_in a src dst")
  case False
  then show ?thesis by (simp add: main_not_logged_in)
next
  case True
  show ?thesis
  proof (cases "check_quota (port_defaulting a) src dst")
    case (Inl e)
    with True show ?thesis by (simp add: main_logged_in)
  next
    case (Inr b)
    show ?thesis
    proof (cases b)
      case True
      with Inr \<open>logged_in a src dst\<close> show ?thesis by (simp add: main_logged_in)
    next
      case False
      with Inr \<open>logged_in a src dst\<close>
      have "main a src dst = enumerate_source (port_defaulting a) (denied_flags a) src dst"
        by (simp add: main_logged_in)
      with enumerate_source_decomposition[of "port_defaulting a" "denied_flags a" src dst]
      show ?thesis by simp
    qed
  qed
qed

subsection \<open>Flags\<close>

lemma lower_char_comma: "lower_char c = CHR '','' \<longleftrightarrow> c = CHR '',''"
  by (auto simp: lower_char_def split: if_splits)

lemma split_nonempty: "split sep s \<noteq> []"
  by (induction s) (auto split: list.splits)

lemma split_lower: "split CHR '','' (lower s) = map lower (split CHR '','' s)"
proof (induction s)
  case Nil
  then show ?case by (simp add: lower_def)
next
  case (Cons c cs)
  obtain w ws where w: "split CHR '','' cs = w # ws"
    using split_nonempty[of "CHR '',''" cs] by (cases "split CHR '','' cs") auto
  with Cons.IH have "split CHR '','' (map lower_char cs) = map lower_char w # map lower ws"
    by (simp add: lower_def)
  with w show ?case by (simp add: lower_def lower_char_comma)
qed

lemma denied_flags_set:
  "set (denied_flags a) =
     insert (backslash # ''recent'')
       (case arg_denied_flags a of
          None \<Rightarrow> {}
        | Some s \<Rightarrow> if s = [] then {}
                    else (\<lambda>token. backslash # lower token) ` set (split CHR '','' s))"
  by (auto simp: denied_flags_def split_lower split: option.splits)

lemma fetch_sound:
  "(u, d) \<in> set (fetch src name uids) \<Longrightarrow> imap_mail src name u = Some d \<and> u \<in> set uids"
  by (auto simp: fetch_def List.map_filter_def)

lemma append_mail_log:
  assumes "append_mail a denied dst folder row data s = (out, s')"
  shows "commands s' = commands s \<or>
         commands s' = commands s @
           [APPEND folder (RFC822 data) (append_flags denied (FLAGS data)) (INTERNALDATE data)]"
proof (cases "line_too_long a (RFC822 data)")
  case True
  with assms show ?thesis by (auto simp: append_mail_def)
next
  case False
  let ?c = "commands s @
           [APPEND folder (RFC822 data) (append_flags denied (FLAGS data)) (INTERNALDATE data)]"
  from False assms show ?thesis
    by (cases "imap_reply dst ?c")
      (auto simp: append_mail_def Let_def append_failed_result split: if_splits option.splits)
qed

lemma transfer_mail_log:
  assumes "transfer_mail a denied dst ddb sf folder (mail_id, data) s = (out, s')"
  shows "commands s' = commands s \<or>
         commands s' = commands s @
           [APPEND folder (RFC822 data) (append_flags denied (FLAGS data)) (INTERNALDATE data)]"
proof (cases "\<exists>row. append_mail a denied dst folder row data s = (out, s')")
  case True
  then show ?thesis using append_mail_log by blast
next
  case False
  with assms have "commands s' = commands s"
    by (auto simp: transfer_mail_def lookup_failed_def
        split: if_splits option.splits)
  then show ?thesis by simp
qed

lemma transfer_mail_from_source:
  assumes "transfer_mail a denied dst ddb sf folder (mail_id, data) s = (out, s')"
    and "imap_mail src name mail_id = Some data"
    and "\<forall>c \<in> set (commands s). from_source src denied c"
  shows "\<forall>c \<in> set (commands s'). from_source src denied c"
proof -
  have "from_source src denied
      (APPEND folder (RFC822 data) (append_flags denied (FLAGS data)) (INTERNALDATE data))"
    using assms(2) by (auto simp: from_source_def append_flags_def)
  with transfer_mail_log[OF assms(1)] assms(3) show ?thesis by auto
qed

lemma transfer_buffer_from_source:
  assumes "transfer_buffer a denied src dst ddb sf_name sf folder buffer s = (out, s')"
    and "\<forall>c \<in> set (commands s). from_source src denied c"
  shows "\<forall>c \<in> set (commands s'). from_source src denied c"
proof -
  let ?I = "\<lambda>s. \<forall>c \<in> set (commands s). from_source src denied c"
  have step: "\<And>x s out s'. x \<in> set (fetch src sf_name buffer) \<Longrightarrow> ?I s \<Longrightarrow>
      transfer_mail a denied dst ddb sf folder x s = (out, s') \<Longrightarrow> ?I s'"
  proof -
    fix x s out s'
    assume x: "x \<in> set (fetch src sf_name buffer)" and i: "?I s"
      and t: "transfer_mail a denied dst ddb sf folder x s = (out, s')"
    obtain u d where xd: "x = (u, d)" by (cases x)
    with x have "imap_mail src sf_name u = Some d" using fetch_sound by blast
    with t xd i show "?I s'" using transfer_mail_from_source by blast
  qed
  from assms(1) have "for_each (transfer_mail a denied dst ddb sf folder)
      (fetch src sf_name buffer) s = (out, s')"
    by (simp add: transfer_buffer_def)
  from for_each_invariant[where I = ?I, OF step assms(2) this] show ?thesis .
qed

lemma create_failed_log: "create_failed a e s = (out, s') \<Longrightarrow> commands s' = commands s"
  by (auto simp: create_failed_def split: if_splits)

lemma create_folder_log:
  assumes "create_folder a dst ddb sf folder s = (out, s')"
  shows "commands s' = commands s \<or> commands s' = commands s @ [CREATE folder] \<or>
         commands s' = commands s @ [CREATE folder, SUBSCRIBE folder]"
proof (cases "folder \<in> set (map fst ddb) \<or> dry_run a \<or> (skip_empty_folders a \<and> sf_mails sf = [])")
  case True
  with assms show ?thesis by (auto simp: create_folder_def split: if_splits)
next
  case False
  let ?c1 = "commands s @ [CREATE folder]"
  let ?c2 = "?c1 @ [SUBSCRIBE folder]"
  show ?thesis
  proof (cases "imap_reply dst ?c1")
    case (No e)
    with False assms have "create_failed a e (s\<lparr>commands := ?c1\<rparr>) = (out, s')"
      by (auto simp: create_folder_def Let_def)
    from create_failed_log[OF this] show ?thesis by simp
  next
    case (Ok r)
    show ?thesis
    proof (cases "destination_no_subscribe a")
      case True
      with Ok False assms show ?thesis by (auto simp: create_folder_def Let_def)
    next
      case ns: False
      show ?thesis
      proof (cases "imap_reply dst ?c2")
        case (No e)
        with ns Ok False assms have "create_failed a e (s\<lparr>commands := ?c2\<rparr>) = (out, s')"
          by (auto simp: create_folder_def Let_def)
        from create_failed_log[OF this] show ?thesis by simp
      next
        case ok2: (Ok r2)
        with ns Ok False assms show ?thesis by (auto simp: create_folder_def Let_def)
      qed
    qed
  qed
qed

lemma create_folder_from_source:
  assumes "create_folder a dst ddb sf folder s = (out, s')"
    and "\<forall>c \<in> set (commands s). from_source src denied c"
  shows "\<forall>c \<in> set (commands s'). from_source src denied c"
  using create_folder_log[OF assms(1)] assms(2) by (auto simp: from_source_def)

lemma transfer_folder_from_source:
  assumes "transfer_folder a denied src dst sd dd ddb redirections entry s = (out, s')"
    and "\<forall>c \<in> set (commands s). from_source src denied c"
  shows "\<forall>c \<in> set (commands s'). from_source src denied c"
proof -
  let ?I = "\<lambda>s. \<forall>c \<in> set (commands s). from_source src denied c"
  obtain sf_name sf where e: "entry = (sf_name, sf)" by (cases entry)
  show ?thesis
  proof (cases "df_name a sd dd ddb redirections sf_name sf")
    case (Inl x)
    with assms e show ?thesis by (simp add: transfer_folder_def)
  next
    case (Inr folder)
    obtain o1 s1 where c: "create_folder a dst ddb sf folder s = (o1, s1)"
      by (cases "create_folder a dst ddb sf folder s")
    from create_folder_from_source[OF c assms(2)] have i1: "?I s1" .
    show ?thesis
    proof (cases "o1 = Proceed \<and> \<not> dry_run a")
      case True
      with assms(1) e Inr c
      have f: "for_each (transfer_buffer a denied src dst ddb sf_name sf folder)
                         (sf_buffer sf) s1 = (out, s')"
        by (simp add: transfer_folder_def)
      have step: "\<And>x s out s'. x \<in> set (sf_buffer sf) \<Longrightarrow> ?I s \<Longrightarrow>
          transfer_buffer a denied src dst ddb sf_name sf folder x s = (out, s') \<Longrightarrow> ?I s'"
        using transfer_buffer_from_source by blast
      from for_each_invariant[where I = ?I, OF step i1 f] show ?thesis .
    next
      case False
      with assms(1) e Inr c have "s' = s1"
        by (cases o1) (auto simp: transfer_folder_def split: if_splits)
      with i1 show ?thesis by simp
    qed
  qed
qed

lemma transfer_from_source:
  assumes "transfer a denied src dst sd dd sdb ddb redirections s = (out, s')"
    and "\<forall>c \<in> set (commands s). from_source src denied c"
  shows "\<forall>c \<in> set (commands s'). from_source src denied c"
proof -
  let ?I = "\<lambda>s. \<forall>c \<in> set (commands s). from_source src denied c"
  have step: "\<And>x s out s'. x \<in> set (sort_key (\<lambda>(name, sf). lower name) sdb) \<Longrightarrow> ?I s \<Longrightarrow>
      transfer_folder a denied src dst sd dd ddb redirections x s = (out, s') \<Longrightarrow> ?I s'"
    using transfer_folder_from_source by blast
  from assms(1) have f: "for_each (transfer_folder a denied src dst sd dd ddb redirections)
       (sort_key (\<lambda>(name, sf). lower name) sdb) s = (out, s')"
    by (simp add: transfer_def)
  from for_each_invariant[where I = ?I, OF step assms(2) f] show ?thesis .
qed

lemma redirect_and_transfer_from_source:
  assumes "commands s = []"
  shows "\<forall>c \<in> set (commands (final
            (redirect_and_transfer a denied src dst sd dd sdb ddb s))). from_source src denied c"
proof (cases "case redirect a of None \<Rightarrow> Inr ([], [])
              | Some rules \<Rightarrow> custom_links (map fst sdb) rules ([], [])")
  case (Inl e)
  with assms show ?thesis by (simp add: redirect_and_transfer_def)
next
  case (Inr p)
  obtain redirections not_found where p: "p = (redirections, not_found)" by (cases p)
  show ?thesis
  proof (cases "not_found = []")
    case False
    with Inr p assms show ?thesis by (simp add: redirect_and_transfer_def)
  next
    case True
    obtain out s' where t: "transfer a denied src dst sd dd sdb ddb redirections s = (out, s')"
      by (cases "transfer a denied src dst sd dd sdb ddb redirections s")
    from assms have "\<forall>c \<in> set (commands s). from_source src denied c" by simp
    from transfer_from_source[OF t this]
    have i: "\<forall>c \<in> set (commands s'). from_source src denied c" .
    from Inr p True t have "final (redirect_and_transfer a denied src dst sd dd sdb ddb s) = s'"
      by (cases out) (auto simp: redirect_and_transfer_def split: exn.splits)
    with i show ?thesis by simp
  qed
qed

lemma main_from_source:
  "\<forall>c \<in> set (commands (final (main a src dst))). from_source src (denied_flags a) c"
proof -
  from main_decomposition[of a src dst]
  consider "commands (final (main a src dst)) = []"
    | sd sdb s1 dd ddb s2 where
      "for_each (source_folder_step (port_defaulting a) src)
        (imap_list_folders src (source_root a)) (None, [], initial_state) =
        (Proceed, (sd, sdb, s1))"
      "for_each (destination_folder_step (port_defaulting a) dst sd)
        (imap_list_folders dst (destination_root a)) (None, [], s1) =
        (Proceed, (dd, ddb, s2))"
      "main a src dst =
        redirect_and_transfer (port_defaulting a) (denied_flags a) src dst sd dd sdb ddb s2"
    by blast
  then show ?thesis
  proof cases
    case 1
    then show ?thesis by simp
  next
    case 2
    from 2(1) obtain sm ne
      where "s1 = initial_state\<lparr>source_mails := sm, skipped_mails_no_envelope := ne\<rparr>"
      using get_source_folders_frame by blast
    then have "commands s1 = []" by simp
    moreover from 2(2) obtain dm bm
      where "s2 = s1\<lparr>destination_mails := dm, skipped_folders_by_mailbox := bm\<rparr>"
      using get_destination_folders_frame by blast
    ultimately have "commands s2 = []" by simp
    from redirect_and_transfer_from_source[OF this] 2(3) show ?thesis by simp
  qed
qed

text \<open>
  Claim C4: the denied flags are \<open>recent\<close> behind a backslash and, when
  \<open>--denied-flags\<close> gives a list, its comma-separated tokens, each in lower case behind
  a backslash. Every \<open>APPEND\<close> of
  a run carries a message of the source with exactly those of its flags whose lower-case
  form is not denied, so no flag of an \<open>APPEND\<close> is, in lower case, a denied flag.
\<close>

theorem denied_flags_never_appended:
  "(arg_denied_flags a = None \<longrightarrow> set (denied_flags a) = {backslash # ''recent''}) \<and>
   (\<forall>s. arg_denied_flags a = Some s \<and> s \<noteq> [] \<longrightarrow>
      set (denied_flags a) =
        insert (backslash # ''recent'')
          ((\<lambda>token. backslash # lower token) ` set (split CHR '','' s))) \<and>
   (\<forall>c \<in> set (commands (final (main a src dst))). from_source src (denied_flags a) c) \<and>
   (\<forall>folder msg flags date.
      APPEND folder msg flags date \<in> set (commands (final (main a src dst))) \<longrightarrow>
      (\<forall>flag \<in> set flags. lower flag \<notin> set (denied_flags a)))"
proof -
  have 1: "\<forall>c \<in> set (commands (final (main a src dst))). from_source src (denied_flags a) c"
    by (rule main_from_source)
  have 2: "\<forall>folder msg flags date.
      APPEND folder msg flags date \<in> set (commands (final (main a src dst))) \<longrightarrow>
      (\<forall>flag \<in> set flags. lower flag \<notin> set (denied_flags a))"
  proof (intro allI impI)
    fix folder msg flags date
    assume "APPEND folder msg flags date \<in> set (commands (final (main a src dst)))"
    with 1 have "from_source src (denied_flags a) (APPEND folder msg flags date)" by blast
    then show "\<forall>flag \<in> set flags. lower flag \<notin> set (denied_flags a)"
      by (auto simp: from_source_def)
  qed
  from 1 2 show ?thesis by (simp add: denied_flags_set)
qed

theorem denied_flags_never_appended_witness:
  "arg_denied_flags denying_args = Some ''Seen,recent'' \<and>
   set (denied_flags denying_args) = {backslash # ''recent'', backslash # ''seen''} \<and>
   commands (final (main denying_args demo_source demo_destination)) =
     [APPEND ''INBOX'' ''body'' [backslash # ''Flagged''] ''d1''] \<and>
   lower (backslash # ''Flagged'') \<notin> set (denied_flags denying_args)"
proof -
  have g: "arg_denied_flags denying_args = Some ''Seen,recent''"
    by (simp add: denying_args_def)
  have c: "commands (final (main denying_args demo_source demo_destination)) =
     [APPEND ''INBOX'' ''body'' [backslash # ''Flagged''] ''d1'']"
    by code_simp
  note t = denied_flags_never_appended[of denying_args demo_source demo_destination]
  from t g have d: "set (denied_flags denying_args) =
      insert (backslash # ''recent'')
          ((\<lambda>token. backslash # lower token) ` set (split CHR '','' ''Seen,recent''))"
    by simp
  then have d': "set (denied_flags denying_args) = {backslash # ''recent'', backslash # ''seen''}"
    by (auto simp: lower_def lower_char_def)
  from t c have "lower (backslash # ''Flagged'') \<notin> set (denied_flags denying_args)"
    by simp
  with g d' c show ?thesis by simp
qed

subsection \<open>Folder mapper\<close>

lemma replace_single: "replace s [ds] dd = rewrite_delimiter ds dd s"
proof (induction s)
  case Nil
  show ?case by (simp add: replace.simps[of "[]"] rewrite_delimiter_def)
next
  case (Cons c cs)
  show ?case
  proof (cases "c = ds")
    case True
    with Cons show ?thesis
      by (simp add: replace.simps[of "ds # cs"] rewrite_delimiter_def)
  next
    case False
    with Cons show ?thesis
      by (simp add: replace.simps[of "c # cs"] rewrite_delimiter_def)
  qed
qed

lemma first_flagged_Some:
  "first_flagged flag ddb = Some n \<Longrightarrow> \<exists>f. (n, f) \<in> set ddb \<and> flag \<in> set (df_flags f)"
  by (induction flag ddb rule: first_flagged.induct) (auto split: if_splits)

lemma first_flagged_None:
  "first_flagged flag ddb = None \<Longrightarrow> (n, f) \<in> set ddb \<Longrightarrow> flag \<notin> set (df_flags f)"
  by (induction flag ddb rule: first_flagged.induct) (auto split: if_splits)

lemma sharing_Cons:
  "sharing_special_flag ddb (x # xs) =
     sharing_special_flag ddb [x] \<union> sharing_special_flag ddb xs"
  by (auto simp: sharing_special_flag_def)

lemma link_special_result:
  "link_special ddb flags n0 \<in> sharing_special_flag ddb flags \<or>
   (link_special ddb flags n0 = n0 \<and> sharing_special_flag ddb flags = {})"
proof (induction flags arbitrary: n0)
  case Nil
  show ?case by (simp add: link_special_def sharing_special_flag_def)
next
  case (Cons x xs)
  let ?n1 = "if x \<in> set SPECIAL_FOLDER_FLAGS
             then (case first_flagged x ddb of Some n \<Rightarrow> n | None \<Rightarrow> n0) else n0"
  have unfold: "link_special ddb (x # xs) n0 = link_special ddb xs ?n1"
    by (simp add: link_special_def)
  from Cons.IH[of ?n1] consider
    "link_special ddb xs ?n1 \<in> sharing_special_flag ddb xs"
    | "link_special ddb xs ?n1 = ?n1" "sharing_special_flag ddb xs = {}" by blast
  then show ?case
  proof cases
    case 1
    with unfold show ?thesis by (simp add: sharing_Cons[of ddb x xs])
  next
    case 2
    show ?thesis
    proof (cases "x \<in> set SPECIAL_FOLDER_FLAGS")
      case False
      then have "sharing_special_flag ddb [x] = {}" by (auto simp: sharing_special_flag_def)
      with False 2 unfold show ?thesis by (simp add: sharing_Cons[of ddb x xs])
    next
      case True
      show ?thesis
      proof (cases "first_flagged x ddb")
        case None
        then have "sharing_special_flag ddb [x] = {}"
          using first_flagged_None[of x ddb] by (auto simp: sharing_special_flag_def)
        with None True 2 unfold show ?thesis by (simp add: sharing_Cons[of ddb x xs])
      next
        case (Some n)
        then obtain f where "(n, f) \<in> set ddb" "x \<in> set (df_flags f)"
          using first_flagged_Some by blast
        with True have "n \<in> sharing_special_flag ddb [x]"
          by (auto simp: sharing_special_flag_def)
        with Some True 2 unfold show ?thesis by (simp add: sharing_Cons[of ddb x xs])
      qed
    qed
  qed
qed

text \<open>
  Claim C2: with the source delimiter \<open>ds\<close> (one character) and the destination
  delimiter \<open>dd\<close>, the destination name of the source folder \<open>sf_name\<close> is the
  redirection given for it, if there is one; else, when folder flags are not ignored and
  some destination folder shares a special-use flag with it, the name of such a folder;
  else the name with every \<open>ds\<close> rewritten to \<open>dd\<close>, behind the destination root and a
  delimiter when a root is configured and either merging is off or the rewritten name
  neither is the root nor starts with the root and a delimiter.
\<close>

theorem df_name_precedence:
  assumes "source_delimiter = Some [ds]" "destination_delimiter = Some dd"
  shows "\<exists>n. df_name a source_delimiter destination_delimiter ddb redirections sf_name sf = Inr n \<and>
     (let rewritten = rewrite_delimiter ds dd sf_name;
          prefixed =
            (if destination_root a \<noteq> [] \<and>
                (\<not> destination_root_merge a \<or>
                 (rewritten \<noteq> destination_root a \<and> \<not> prefix (destination_root a @ dd) rewritten))
             then destination_root a @ dd @ rewritten else rewritten)
      in case map_of redirections sf_name of
           Some r \<Rightarrow> n = r
         | None \<Rightarrow>
             if \<not> ignore_folder_flags a \<and> sharing_special_flag ddb (sf_flags sf) \<noteq> {}
             then n \<in> sharing_special_flag ddb (sf_flags sf)
             else n = prefixed)"
proof -
  let ?rewritten = "rewrite_delimiter ds dd sf_name"
  let ?prefixed = "if destination_root a \<noteq> [] \<and>
                (\<not> destination_root_merge a \<or>
                 (?rewritten \<noteq> destination_root a \<and> \<not> prefix (destination_root a @ dd) ?rewritten))
             then destination_root a @ dd @ ?rewritten else ?rewritten"
  let ?linked = "if \<not> ignore_folder_flags a then link_special ddb (sf_flags sf) ?prefixed
                 else ?prefixed"
  have r: "rooted a dd ?rewritten = ?prefixed"
    by (auto simp: rooted_def startswith_def)
  have d: "df_name a source_delimiter destination_delimiter ddb redirections sf_name sf =
      Inr (case map_of redirections sf_name of Some r \<Rightarrow> r | None \<Rightarrow> ?linked)"
    using assms by (simp add: df_name_def Let_def replace_single r cong: option.case_cong)
  show ?thesis
  proof (cases "map_of redirections sf_name")
    case (Some r)
    with d show ?thesis by (simp add: Let_def)
  next
    case None
    show ?thesis
    proof (cases "ignore_folder_flags a")
      case True
      with None d show ?thesis by (simp add: Let_def)
    next
      case False
      with link_special_result[of ddb "sf_flags sf" ?prefixed] None d
      show ?thesis by (auto simp: Let_def)
    qed
  qed
qed

theorem df_name_precedence_witness:
  "df_name default_args (Some ''.'') (Some ''/'') sent_items [] ''Work.Projects.Foo'' plain_folder
     = Inr ''Work/Projects/Foo'' \<and>
   df_name default_args (Some ''.'') (Some ''/'') sent_items [] ''Gesendet'' gesendet
     = Inr ''Sent Items'' \<and>
   df_name default_args (Some ''.'') (Some ''/'') sent_items [(''Gesendet'', ''Archive/Sent'')]
     ''Gesendet'' gesendet = Inr ''Archive/Sent''"
proof -
  have s0: "sharing_special_flag sent_items (sf_flags plain_folder) = {}"
    by (auto simp: sharing_special_flag_def plain_folder_def)
  have s1: "sharing_special_flag sent_items (sf_flags gesendet) = {''Sent Items''}"
    by (auto simp: sharing_special_flag_def gesendet_def sent_items_def SPECIAL_FOLDER_FLAGS_def)
  have a: "destination_root default_args = []" "\<not> ignore_folder_flags default_args"
    by (simp_all add: default_args_def)
  have w: "rewrite_delimiter CHR ''.'' ''/'' ''Work.Projects.Foo'' = ''Work/Projects/Foo''"
    by (simp add: rewrite_delimiter_def)
  from df_name_precedence[OF refl refl, of default_args "CHR ''.''" "''/''" sent_items "[]"
      "''Work.Projects.Foo''" plain_folder] s0 a w
  have 1: "df_name default_args (Some ''.'') (Some ''/'') sent_items [] ''Work.Projects.Foo''
      plain_folder = Inr ''Work/Projects/Foo''"
    by (auto simp: Let_def)
  from df_name_precedence[OF refl refl, of default_args "CHR ''.''" "''/''" sent_items "[]"
      "''Gesendet''" gesendet] s1 a
  have 2: "df_name default_args (Some ''.'') (Some ''/'') sent_items [] ''Gesendet'' gesendet
     = Inr ''Sent Items''"
    by (auto simp: Let_def)
  from df_name_precedence[OF refl refl, of default_args "CHR ''.''" "''/''" sent_items
      "[(''Gesendet'', ''Archive/Sent'')]" "''Gesendet''" gesendet]
  have 3: "df_name default_args (Some ''.'') (Some ''/'') sent_items
      [(''Gesendet'', ''Archive/Sent'')] ''Gesendet'' gesendet = Inr ''Archive/Sent''"
    by (auto simp: Let_def)
  from 1 2 3 show ?thesis by simp
qed

subsection \<open>What the source enumeration counts\<close>

lemma source_row_count:
  assumes "source_row (uid, data) (f, s) = (f', s')"
  shows "source_mails s' = source_mails s + (if ENVELOPE data \<noteq> None then 1 else 0) \<and>
         sf_buffer f' = sf_buffer f \<and>
         dom (map_of (sf_mails f')) =
           dom (map_of (sf_mails f)) \<union> (if ENVELOPE data \<noteq> None then {uid} else {})"
  using assms by (cases "ENVELOPE data") (auto simp: source_row_def update_conv')

lemma fold_source_row_count:
  assumes "fold source_row items (f, s) = (f', s')"
  shows "source_mails s' = source_mails s + with_envelope items \<and>
         sf_buffer f' = sf_buffer f \<and>
         dom (map_of (sf_mails f')) =
           dom (map_of (sf_mails f)) \<union>
           {uid. \<exists>data. (uid, data) \<in> set items \<and> ENVELOPE data \<noteq> None}"
  using assms
proof (induction items arbitrary: f s)
  case Nil
  then show ?case by (simp add: with_envelope_def)
next
  case (Cons item items)
  obtain uid data where i: "item = (uid, data)" by (cases item)
  obtain f1 s1 where r: "source_row (uid, data) (f, s) = (f1, s1)"
    by (cases "source_row (uid, data) (f, s)")
  with Cons.prems i have "fold source_row items (f1, s1) = (f', s')" by simp
  from Cons.IH[OF this] source_row_count[OF r] i show ?case
    by (auto simp: with_envelope_def)
qed

lemma envelope_uids_append:
  "envelope_uids src name (bs @ [b]) =
     envelope_uids src name bs \<union>
     {uid. \<exists>data. (uid, data) \<in> set (fetch src name b) \<and> ENVELOPE data \<noteq> None}"
  by (auto simp: envelope_uids_def)

lemma source_buffers_count:
  assumes "source_buffers a src name mails (f, s) = (out, (f', s'))"
    and "manifest_agrees src name f"
  shows "source_mails s' + enumerated src name (sf_buffer f) =
           source_mails s + enumerated src name (sf_buffer f') \<and>
         manifest_agrees src name f'"
  using assms
proof (induction a src name mails "(f, s)" arbitrary: f s rule: source_buffers.induct)
  case (1 a source name mails)
  let ?k = "slice_end (buffer_size a) mails"
  show ?case
  proof (cases "mails = [] \<or> ?k = 0")
    case True
    with "1.prems" show ?thesis
      by (auto simp: source_buffers.simps[of a source name mails] split: if_splits)
  next
    case False
    let ?b = "take ?k mails"
    obtain f1 s1 where r: "fold source_row (fetch source name ?b)
        (f\<lparr>sf_buffer := sf_buffer f @ [?b]\<rparr>, s) = (f1, s1)"
      by (cases "fold source_row (fetch source name ?b)
        (f\<lparr>sf_buffer := sf_buffer f @ [?b]\<rparr>, s)")
    from fold_source_row_count[OF r]
    have c: "source_mails s1 = source_mails s + with_envelope (fetch source name ?b)"
      and b: "sf_buffer f1 = sf_buffer f @ [?b]"
      and d: "dom (map_of (sf_mails f1)) = dom (map_of (sf_mails f)) \<union>
           {uid. \<exists>data. (uid, data) \<in> set (fetch source name ?b) \<and> ENVELOPE data \<noteq> None}"
      by simp_all
    from d b "1.prems"(2) have m1: "manifest_agrees source name f1"
      by (simp add: manifest_agrees_def envelope_uids_append)
    from False "1.prems"(1) r
    have rec: "source_buffers a source name (drop ?k mails) (f1, s1) = (out, (f', s'))"
      by (simp add: source_buffers.simps[of a source name mails])
    from False have ne: "mails \<noteq> []" "?k \<noteq> 0" by auto
    from r have r': "fold source_row (fetch source name ?b)
        (case (f, s) of (f, x) \<Rightarrow> (f\<lparr>sf_buffer := sf_buffer f @ [?b]\<rparr>, x)) = (f1, s1)"
      by simp
    from "1.hyps"[OF ne r' rec m1]
    have "source_mails s' + enumerated source name (sf_buffer f1) =
           source_mails s1 + enumerated source name (sf_buffer f')"
      and m: "manifest_agrees source name f'" by simp_all
    with c b show ?thesis by (simp add: enumerated_def)
  qed
qed

lemma update_absent:
  "k \<notin> fst ` set al \<Longrightarrow> AList.update k v al = al @ [(k, v)]"
  by (induction al) auto

lemma source_folder_step_count:
  assumes "source_folder_step a src (flags, delimiter, name) (sd, sdb, s) = (out, (sd', sdb', s'))"
    and "name \<notin> fst ` set sdb"
    and "source_mails s = c + total_enumerated src sdb"
    and "\<forall>(n, f) \<in> set sdb. manifest_agrees src n f"
  shows "source_mails s' = c + total_enumerated src sdb' \<and>
         (\<forall>(n, f) \<in> set sdb'. manifest_agrees src n f) \<and>
         fst ` set sdb' \<subseteq> insert name (fst ` set sdb)"
proof (cases "(source_mailbox a \<noteq> [] \<and> name \<notin> set (source_mailbox a)) \<or>
              (imap_search src name = [] \<and> skip_empty_folders a) \<or>
              (\<exists>e. set_delimiter sd delimiter = Inl e)")
  case True
  with assms(1) have "s' = s" "sdb' = sdb"
    by (auto simp: source_folder_step_def split: if_splits sum.splits)
  with assms show ?thesis by auto
next
  case False
  let ?f0 = "\<lparr>sf_flags = flags, sf_mails = [], sf_size = 0, sf_buffer = []\<rparr>"
  obtain o1 f1 s1 where b: "source_buffers a src name (imap_search src name) (?f0, s) =
      (o1, (f1, s1))"
    by (metis prod.exhaust)
  have m0: "manifest_agrees src name ?f0"
    by (simp add: manifest_agrees_def envelope_uids_def)
  from source_buffers_count[OF b m0]
  have c1: "source_mails s1 = source_mails s + enumerated src name (sf_buffer f1)"
    and m1: "manifest_agrees src name f1"
    by (simp_all add: enumerated_def)
  from False assms(1) b have r: "s' = s1" "sdb' = AList.update name f1 sdb"
    by (auto simp: source_folder_step_def split: if_splits sum.splits)
  with assms(2) have sdb': "sdb' = sdb @ [(name, f1)]" by (simp add: update_absent)
  with r(1) c1 m1 assms(3,4) show ?thesis
    by (auto simp: total_enumerated_def)
qed

lemma get_source_folders_count:
  assumes "for_each (source_folder_step a src) rows (sd, sdb, s) = (out, (sd', sdb', s'))"
    and "distinct (map (\<lambda>(flags, delimiter, name). name) rows)"
    and "(\<lambda>(flags, delimiter, name). name) ` set rows \<inter> fst ` set sdb = {}"
    and "source_mails s = c + total_enumerated src sdb"
    and "\<forall>(n, f) \<in> set sdb. manifest_agrees src n f"
  shows "source_mails s' = c + total_enumerated src sdb' \<and>
         (\<forall>(n, f) \<in> set sdb'. manifest_agrees src n f)"
  using assms
proof (induction rows arbitrary: sd sdb s)
  case Nil
  then show ?case by simp
next
  case (Cons row rows)
  obtain flags delimiter name where row: "row = (flags, delimiter, name)" by (cases row)
  obtain o1 sd1 sdb1 s1
    where st: "source_folder_step a src (flags, delimiter, name) (sd, sdb, s) =
               (o1, (sd1, sdb1, s1))"
    by (metis prod.exhaust)
  from Cons.prems(3) row have fresh: "name \<notin> fst ` set sdb" by auto
  from source_folder_step_count[OF st fresh Cons.prems(4,5)]
  have c1: "source_mails s1 = c + total_enumerated src sdb1"
    and m1: "\<forall>(n, f) \<in> set sdb1. manifest_agrees src n f"
    and k1: "fst ` set sdb1 \<subseteq> insert name (fst ` set sdb)" by simp_all
  show ?case
  proof (cases "o1 = Proceed \<or> o1 = Continue")
    case True
    with Cons.prems(1) row st
    have rest: "for_each (source_folder_step a src) rows (sd1, sdb1, s1) = (out, (sd', sdb', s'))"
      by auto
    from Cons.prems(2) row have d: "distinct (map (\<lambda>(flags, delimiter, name). name) rows)"
      and n: "name \<notin> (\<lambda>(flags, delimiter, name). name) ` set rows" by auto
    from Cons.prems(3) have "(\<lambda>(flags, delimiter, name). name) ` set rows \<inter> fst ` set sdb = {}"
      by auto
    with k1 n
    have disj: "(\<lambda>(flags, delimiter, name). name) ` set rows \<inter> fst ` set sdb1 = {}"
      by blast
    from Cons.IH[OF rest d disj c1 m1] show ?thesis .
  next
    case False
    with Cons.prems(1) row st have "s' = s1" "sdb' = sdb1"
      by (cases o1; auto)+
    with c1 m1 show ?thesis by simp
  qed
qed

subsection \<open>What the transfer accounts for\<close>

lemma for_each_accumulate:
  fixes m p k :: "'s \<Rightarrow> nat"
  assumes "\<And>x s out s'. x \<in> set xs \<Longrightarrow> body x s = (out, s') \<Longrightarrow>
             out = Proceed \<or> out = Continue \<Longrightarrow>
             m s' = m s + w x \<and> p s' = p s + w x \<and> k s' = k s"
    and "for_each body xs s = (Proceed, s')"
  shows "m s' = m s + sum_list (map w xs) \<and> p s' = p s + sum_list (map w xs) \<and> k s' = k s"
  using assms
proof (induction xs arbitrary: s)
  case Nil
  then show ?case by simp
next
  case (Cons x xs)
  obtain o1 s1 where b: "body x s = (o1, s1)" by (cases "body x s")
  from Cons.prems(2) b have o1: "o1 = Proceed \<or> o1 = Continue"
    by (cases o1) auto
  with Cons.prems(2) b have rest: "for_each body xs s1 = (Proceed, s')" by auto
  from Cons.prems(1)[of x s o1 s1] b o1
  have 1: "m s1 = m s + w x" "p s1 = p s + w x" "k s1 = k s" by simp_all
  have "m s' = m s1 + sum_list (map w xs) \<and> p s' = p s1 + sum_list (map w xs) \<and> k s' = k s1"
  proof (rule Cons.IH[OF _ rest])
    fix y t out t'
    assume "y \<in> set xs" "body y t = (out, t')" "out = Proceed \<or> out = Continue"
    then show "m t' = m t + w y \<and> p t' = p t + w y \<and> k t' = k t"
      using Cons.prems(1)[of y t out t'] by simp
  qed
  with 1 show ?case by simp
qed

lemma sum_insort_key:
  fixes w :: "'a \<Rightarrow> nat"
  shows "sum_list (map w (insort_key key x xs)) = w x + sum_list (map w xs)"
  by (induction xs) auto

lemma sum_sort_key:
  fixes w :: "'a \<Rightarrow> nat"
  shows "sum_list (map w (sort_key key xs)) = sum_list (map w xs)"
  by (induction xs) (auto simp: sum_insort_key)

lemma count_with_envelope:
  "sum_list (map (\<lambda>(uid, data). if ENVELOPE data \<noteq> None then 1 else 0) items) =
   with_envelope items"
  by (induction items) (auto simp: with_envelope_def)

lemma manifest_agrees_item:
  assumes "manifest_agrees src name f" "b \<in> set (sf_buffer f)"
    and "(uid, data) \<in> set (fetch src name b)"
  shows "(map_of (sf_mails f) uid \<noteq> None) = (ENVELOPE data \<noteq> None)"
proof
  assume "map_of (sf_mails f) uid \<noteq> None"
  then have "uid \<in> envelope_uids src name (sf_buffer f)"
    using assms(1) by (auto simp: manifest_agrees_def)
  then obtain b' data' where "(uid, data') \<in> set (fetch src name b')" "ENVELOPE data' \<noteq> None"
    by (auto simp: envelope_uids_def)
  moreover from this(1) have "imap_mail src name uid = Some data'" using fetch_sound by blast
  moreover from assms(3) have "imap_mail src name uid = Some data" using fetch_sound by blast
  ultimately show "ENVELOPE data \<noteq> None" by simp
next
  assume "ENVELOPE data \<noteq> None"
  with assms(2,3) have "uid \<in> envelope_uids src name (sf_buffer f)"
    by (auto simp: envelope_uids_def)
  with assms(1) show "map_of (sf_mails f) uid \<noteq> None" by (auto simp: manifest_agrees_def)
qed

lemma enumerated_empty:
  assumes "manifest_agrees src name f" "sf_mails f = []"
  shows "enumerated src name (sf_buffer f) = 0"
proof -
  from assms have e: "envelope_uids src name (sf_buffer f) = {}"
    by (simp add: manifest_agrees_def)
  have "\<And>b. b \<in> set (sf_buffer f) \<Longrightarrow> with_envelope (fetch src name b) = 0"
  proof -
    fix b assume b: "b \<in> set (sf_buffer f)"
    have "filter (\<lambda>(uid, data). ENVELOPE data \<noteq> None) (fetch src name b) = []"
    proof (rule ccontr)
      assume "filter (\<lambda>(uid, data). ENVELOPE data \<noteq> None) (fetch src name b) \<noteq> []"
      then obtain x where "x \<in> set (filter (\<lambda>(uid, data). ENVELOPE data \<noteq> None)
          (fetch src name b))"
        by (meson last_in_set)
      then obtain uid data where "(uid, data) \<in> set (fetch src name b)" "ENVELOPE data \<noteq> None"
        by auto
      with b have "uid \<in> envelope_uids src name (sf_buffer f)"
        by (auto simp: envelope_uids_def)
      with e show False by simp
    qed
    then show "with_envelope (fetch src name b) = 0" by (simp add: with_envelope_def)
  qed
  then show ?thesis by (simp add: enumerated_def)
qed

lemma transfer_mail_tally:
  assumes "transfer_mail a denied dst ddb sf folder (uid, data) s = (out, s')"
    and "out = Proceed \<or> out = Continue" "\<not> dry_run a"
    and "(map_of (sf_mails sf) uid \<noteq> None) = (ENVELOPE data \<noteq> None)"
  shows "tally s' = tally s + (if ENVELOPE data \<noteq> None then 1 else 0) \<and>
         processed s' = processed s + (if ENVELOPE data \<noteq> None then 1 else 0) \<and>
         source_mails s' = source_mails s"
proof (cases "map_of (sf_mails sf) uid")
  case None
  from assms(1,2) have "source_mails s \<noteq> 0"
    by (auto simp: transfer_mail_def split: if_splits)
  with None assms(1) have "(out, s') = lookup_failed folder uid s"
    by (simp add: transfer_mail_lookup_failed)
  with None assms(4) show ?thesis
    by (auto simp: lookup_failed_def tally_def append_errors_def)
next
  case (Some row)
  from assms(2) have "out \<noteq> Raise TypeError" "out \<noteq> Raise ZeroDivisionError" by auto
  from transfer_mail_found[OF assms(1) Some this assms(3)] Some assms(2,4)
  show ?thesis by auto
qed

lemma transfer_buffer_tally:
  assumes "transfer_buffer a denied src dst ddb name f folder b s = (Proceed, s')"
    and "\<not> dry_run a" "manifest_agrees src name f" "b \<in> set (sf_buffer f)"
  shows "tally s' = tally s + with_envelope (fetch src name b) \<and>
         processed s' = processed s + with_envelope (fetch src name b) \<and>
         source_mails s' = source_mails s"
proof -
  let ?w = "\<lambda>(uid, data). if ENVELOPE data \<noteq> None then 1 else (0::nat)"
  from assms(1) have f: "for_each (transfer_mail a denied dst ddb f folder)
      (fetch src name b) s = (Proceed, s')"
    by (simp add: transfer_buffer_def)
  have "tally s' = tally s + sum_list (map ?w (fetch src name b)) \<and>
        processed s' = processed s + sum_list (map ?w (fetch src name b)) \<and>
        source_mails s' = source_mails s"
  proof (rule for_each_accumulate[OF _ f])
    fix x t out t'
    assume x: "x \<in> set (fetch src name b)"
      and t: "transfer_mail a denied dst ddb f folder x t = (out, t')"
      and o: "out = Proceed \<or> out = Continue"
    obtain uid data where xd: "x = (uid, data)" by (cases x)
    from manifest_agrees_item[OF assms(3,4)] x xd
    have "(map_of (sf_mails f) uid \<noteq> None) = (ENVELOPE data \<noteq> None)" by simp
    from transfer_mail_tally[OF t[unfolded xd] o assms(2) this] xd
    show "tally t' = tally t + ?w x \<and> processed t' = processed t + ?w x \<and>
          source_mails t' = source_mails t" by simp
  qed
  then show ?thesis by (simp only: count_with_envelope)
qed

lemma tally_frame:
  "tally (s\<lparr>commands := c\<rparr>) = tally s"
  "tally (s\<lparr>copied_folders := n\<rparr>) = tally s"
  "tally (s\<lparr>skipped_folders_already_exists := n\<rparr>) = tally s"
  "tally (s\<lparr>skipped_folders_empty := n\<rparr>) = tally s"
  by (simp_all add: tally_def append_errors_def)

lemma create_failed_tally:
  "create_failed a e s = (out, s') \<Longrightarrow>
   tally s' = tally s \<and> processed s' = processed s \<and> source_mails s' = source_mails s"
  by (auto simp: create_failed_def tally_frame split: if_splits)

lemma create_folder_tally:
  assumes "create_folder a dst ddb sf folder s = (out, s')"
  shows "tally s' = tally s \<and> processed s' = processed s \<and> source_mails s' = source_mails s"
proof (cases "folder \<in> set (map fst ddb) \<or> dry_run a \<or> (skip_empty_folders a \<and> sf_mails sf = [])")
  case True
  with assms show ?thesis by (auto simp: create_folder_def tally_frame split: if_splits)
next
  case False
  let ?c1 = "commands s @ [CREATE folder]"
  let ?c2 = "?c1 @ [SUBSCRIBE folder]"
  show ?thesis
  proof (cases "imap_reply dst ?c1")
    case (No e)
    with False assms have "create_failed a e (s\<lparr>commands := ?c1\<rparr>) = (out, s')"
      by (auto simp: create_folder_def Let_def)
    from create_failed_tally[OF this] show ?thesis by (simp add: tally_frame)
  next
    case (Ok r)
    show ?thesis
    proof (cases "destination_no_subscribe a")
      case True
      with Ok False assms show ?thesis by (auto simp: create_folder_def Let_def tally_frame)
    next
      case ns: False
      show ?thesis
      proof (cases "imap_reply dst ?c2")
        case (No e)
        with ns Ok False assms have "create_failed a e (s\<lparr>commands := ?c2\<rparr>) = (out, s')"
          by (auto simp: create_folder_def Let_def)
        from create_failed_tally[OF this] show ?thesis by (simp add: tally_frame)
      next
        case ok2: (Ok r2)
        with ns Ok False assms show ?thesis by (auto simp: create_folder_def Let_def tally_frame)
      qed
    qed
  qed
qed

lemma create_folder_continue:
  assumes "create_folder a dst ddb sf folder s = (Continue, s')"
    and "abort_on_error a \<or>
         (\<forall>h name e. imap_reply dst (h @ [CREATE name]) = No e \<or>
                      imap_reply dst (h @ [SUBSCRIBE name]) = No e \<longrightarrow>
                      contains (lower e) ''alreadyexists'')"
  shows "sf_mails sf = []"
proof (rule ccontr)
  assume ne: "sf_mails sf \<noteq> []"
  have cf: "\<And>h name e t. imap_reply dst (h @ [CREATE name]) = No e \<or>
                      imap_reply dst (h @ [SUBSCRIBE name]) = No e \<Longrightarrow>
      fst (create_failed a e t) \<noteq> Continue"
    using assms(2) by (auto simp: create_failed_def)
  let ?c1 = "commands s @ [CREATE folder]"
  let ?c2 = "?c1 @ [SUBSCRIBE folder]"
  show False
  proof (cases "imap_reply dst ?c1")
    case (No e)
    with assms(1) ne have "create_failed a e (s\<lparr>commands := ?c1\<rparr>) = (Continue, s')"
      by (auto simp: create_folder_def Let_def split: if_splits)
    with cf[of "commands s" folder e "s\<lparr>commands := ?c1\<rparr>"] No show False by simp
  next
    case (Ok r)
    show False
    proof (cases "imap_reply dst ?c2")
      case (No e)
      with Ok assms(1) ne
      have "create_failed a e (s\<lparr>commands := ?c2\<rparr>) = (Continue, s')"
        by (auto simp: create_folder_def Let_def split: if_splits)
      with cf[of ?c1 folder e "s\<lparr>commands := ?c2\<rparr>"] No show False by simp
    next
      case ok2: (Ok r2)
      with Ok assms(1) ne show False
        by (auto simp: create_folder_def Let_def split: if_splits)
    qed
  qed
qed

lemma port_defaulting_abort [simp]:
  "abort_on_error (port_defaulting a) = abort_on_error a"
  by (simp add: port_defaulting_eq)

lemma transfer_folder_tally:
  assumes "transfer_folder a denied src dst sd dd ddb redirections (name, f) s = (out, s')"
    and "out = Proceed \<or> out = Continue" "\<not> dry_run a" "manifest_agrees src name f"
    and "abort_on_error a \<or>
         (\<forall>h name e. imap_reply dst (h @ [CREATE name]) = No e \<or>
                      imap_reply dst (h @ [SUBSCRIBE name]) = No e \<longrightarrow>
                      contains (lower e) ''alreadyexists'')"
  shows "tally s' = tally s + enumerated src name (sf_buffer f) \<and>
         processed s' = processed s + enumerated src name (sf_buffer f) \<and>
         source_mails s' = source_mails s"
proof (cases "df_name a sd dd ddb redirections name f")
  case (Inl e)
  with assms(1,2) show ?thesis by (auto simp: transfer_folder_def)
next
  case (Inr folder)
  obtain o1 s1 where c: "create_folder a dst ddb f folder s = (o1, s1)"
    by (cases "create_folder a dst ddb f folder s")
  from create_folder_tally[OF c]
  have t1: "tally s1 = tally s" "processed s1 = processed s" "source_mails s1 = source_mails s"
    by simp_all
  show ?thesis
  proof (cases "o1 = Proceed")
    case True
    with assms(1,3) Inr c
    have fe: "for_each (transfer_buffer a denied src dst ddb name f folder) (sf_buffer f) s1 =
              (out, s')"
      by (simp add: transfer_folder_def)
    from for_each_outcome[OF fe] assms(2) have "out = Proceed" by auto
    with fe have fe': "for_each (transfer_buffer a denied src dst ddb name f folder)
        (sf_buffer f) s1 = (Proceed, s')" by simp
    have "tally s' = tally s1 +
            sum_list (map (\<lambda>b. with_envelope (fetch src name b)) (sf_buffer f)) \<and>
          processed s' = processed s1 +
            sum_list (map (\<lambda>b. with_envelope (fetch src name b)) (sf_buffer f)) \<and>
          source_mails s' = source_mails s1"
    proof (rule for_each_accumulate[OF _ fe'])
      fix b t out t'
      assume b: "b \<in> set (sf_buffer f)"
        and t: "transfer_buffer a denied src dst ddb name f folder b t = (out, t')"
        and o: "out = Proceed \<or> out = Continue"
      from t have "for_each (transfer_mail a denied dst ddb f folder) (fetch src name b) t =
          (out, t')" by (simp add: transfer_buffer_def)
      from for_each_outcome[OF this] o have "out = Proceed" by auto
      with t have "transfer_buffer a denied src dst ddb name f folder b t = (Proceed, t')"
        by simp
      from transfer_buffer_tally[OF this assms(3,4) b]
      show "tally t' = tally t + with_envelope (fetch src name b) \<and>
            processed t' = processed t + with_envelope (fetch src name b) \<and>
            source_mails t' = source_mails t" .
    qed
    with t1 show ?thesis by (simp add: enumerated_def)
  next
    case False
    with assms(1) Inr c have r: "out = o1" "s' = s1"
      by (cases o1; simp add: transfer_folder_def)+
    with assms(2) False have "o1 = Continue" by simp
    with c have "create_folder a dst ddb f folder s = (Continue, s1)" by simp
    from create_folder_continue[OF this assms(5)] have "sf_mails f = []" .
    with assms(4) have "enumerated src name (sf_buffer f) = 0" by (rule enumerated_empty)
    with r t1 show ?thesis by simp
  qed
qed

lemma transfer_tally:
  assumes "transfer a denied src dst sd dd sdb ddb redirections s = (Proceed, s')"
    and "\<not> dry_run a" "\<forall>(n, f) \<in> set sdb. manifest_agrees src n f"
    and "abort_on_error a \<or>
         (\<forall>h name e. imap_reply dst (h @ [CREATE name]) = No e \<or>
                      imap_reply dst (h @ [SUBSCRIBE name]) = No e \<longrightarrow>
                      contains (lower e) ''alreadyexists'')"
  shows "tally s' = tally s + total_enumerated src sdb \<and>
         processed s' = processed s + total_enumerated src sdb \<and>
         source_mails s' = source_mails s"
proof -
  let ?xs = "sort_key (\<lambda>(name, sf). lower name) sdb"
  let ?w = "\<lambda>(name, f). enumerated src name (sf_buffer f)"
  from assms(1) have fe: "for_each (transfer_folder a denied src dst sd dd ddb redirections)
      ?xs s = (Proceed, s')" by (simp add: transfer_def)
  have "tally s' = tally s + sum_list (map ?w ?xs) \<and>
        processed s' = processed s + sum_list (map ?w ?xs) \<and>
        source_mails s' = source_mails s"
  proof (rule for_each_accumulate[OF _ fe])
    fix x t out t'
    assume x: "x \<in> set ?xs"
      and t: "transfer_folder a denied src dst sd dd ddb redirections x t = (out, t')"
      and o: "out = Proceed \<or> out = Continue"
    obtain name f where xd: "x = (name, f)" by (cases x)
    with x assms(3) have "manifest_agrees src name f" by auto
    from transfer_folder_tally[OF t[unfolded xd] o assms(2) this assms(4)] xd
    show "tally t' = tally t + ?w x \<and> processed t' = processed t + ?w x \<and>
          source_mails t' = source_mails t" by simp
  qed
  then show ?thesis by (simp only: sum_sort_key total_enumerated_def)
qed

lemma redirect_and_transfer_finished:
  assumes "ending (redirect_and_transfer a denied src dst sd dd sdb ddb s) = Finished"
  shows "\<exists>redirections. transfer a denied src dst sd dd sdb ddb redirections s =
           (Proceed, final (redirect_and_transfer a denied src dst sd dd sdb ddb s))"
proof (cases "case redirect a of None \<Rightarrow> Inr ([], [])
              | Some rules \<Rightarrow> custom_links (map fst sdb) rules ([], [])")
  case (Inl e)
  with assms show ?thesis by (simp add: redirect_and_transfer_def)
next
  case (Inr p)
  obtain redirections not_found where p: "p = (redirections, not_found)" by (cases p)
  show ?thesis
  proof (cases "not_found = []")
    case False
    with Inr p assms show ?thesis by (simp add: redirect_and_transfer_def)
  next
    case True
    obtain out s' where t: "transfer a denied src dst sd dd sdb ddb redirections s = (out, s')"
      by (cases "transfer a denied src dst sd dd sdb ddb redirections s")
    then have "for_each (transfer_folder a denied src dst sd dd ddb redirections)
        (sort_key (\<lambda>(name, sf). lower name) sdb) s = (out, s')" by (simp add: transfer_def)
    from for_each_outcome[OF this] consider "out = Proceed" | "out = Hang"
      | e where "out = Raise e" by blast
    then show ?thesis
    proof cases
      case 1
      with Inr p True t show ?thesis by (auto simp: redirect_and_transfer_def)
    next
      case 2
      with Inr p True t assms show ?thesis by (simp add: redirect_and_transfer_def)
    next
      case 3
      with Inr p True t assms show ?thesis
        by (cases e) (simp_all add: redirect_and_transfer_def)
    qed
  qed
qed

lemma tally_initial [simp]: "tally initial_state = 0" "source_mails initial_state = 0"
  by (simp_all add: tally_def append_errors_def initial_state_def)

lemma tally_enumeration_frame:
  "tally (s\<lparr>source_mails := sm, skipped_mails_no_envelope := ne\<rparr>) = tally s"
  "tally (s\<lparr>destination_mails := dm, skipped_folders_by_mailbox := bm\<rparr>) = tally s"
  by (simp_all add: tally_def append_errors_def)

text \<open>
  Claim C1, as stated, fails on two runs that complete. In the sample run the message
  without an envelope is counted under \<open>no_envelope\<close> during enumeration and is not
  part of \<open>source_mails\<close>, and its failed manifest lookup leaves an error record: with
  the one copied message the left side is 3 and \<open>source_mails\<close> is 1. A dry run skips
  the message loop: over a source with one message the left side is 0 and
  \<open>source_mails\<close> is 1.
\<close>

theorem conservation_fails:
  "ending (main sized_args demo_source demo_destination) = Finished \<and>
   map e_exception (errors (final (main sized_args demo_source demo_destination))) =
     [KeyError (UID 2)] \<and>
   copied_mails (final (main sized_args demo_source demo_destination)) +
     (skipped_mails_zero_size (final (main sized_args demo_source demo_destination)) +
      skipped_mails_max_size (final (main sized_args demo_source demo_destination)) +
      skipped_mails_no_envelope (final (main sized_args demo_source demo_destination)) +
      skipped_mails_max_line_length (final (main sized_args demo_source demo_destination)) +
      skipped_mails_already_exists (final (main sized_args demo_source demo_destination))) +
     length (errors (final (main sized_args demo_source demo_destination))) = 3 \<and>
   source_mails (final (main sized_args demo_source demo_destination)) = 1 \<and>
   ending (main dry_args single_source demo_destination) = Finished \<and>
   copied_mails (final (main dry_args single_source demo_destination)) +
     (skipped_mails_zero_size (final (main dry_args single_source demo_destination)) +
      skipped_mails_max_size (final (main dry_args single_source demo_destination)) +
      skipped_mails_no_envelope (final (main dry_args single_source demo_destination)) +
      skipped_mails_max_line_length (final (main dry_args single_source demo_destination)) +
      skipped_mails_already_exists (final (main dry_args single_source demo_destination))) +
     length (errors (final (main dry_args single_source demo_destination))) = 0 \<and>
   source_mails (final (main dry_args single_source demo_destination)) = 1"
  by code_simp

text \<open>
  Claim C1, amended: for every run that is not a dry run and completes (it reaches
  \<open>Finish!\<close>), on a source whose \<open>LIST\<close> names each folder once and with no source
  folder dropped by a failed \<open>CREATE\<close> or \<open>SUBSCRIBE\<close> (with \<open>--abort-on-error\<close>, or
  when each such failure says \<open>alreadyexists\<close>), the copied messages, the messages
  skipped as \<open>zero_size\<close>, \<open>max_size\<close>, \<open>already_exists\<close> or \<open>max_line_length\<close> and the
  error records of failed \<open>APPEND\<close>s add up to \<open>source_mails\<close>. Messages without an
  envelope are outside this sum and outside \<open>source_mails\<close>.
\<close>

theorem conservation_of_messages:
  assumes "ending (main a src dst) = Finished"
    and "\<not> dry_run a"
    and "distinct (map (\<lambda>(flags, delimiter, name). name) (imap_list_folders src (source_root a)))"
    and "abort_on_error a \<or>
         (\<forall>h name e. imap_reply dst (h @ [CREATE name]) = No e \<or>
                      imap_reply dst (h @ [SUBSCRIBE name]) = No e \<longrightarrow>
                      contains (lower e) ''alreadyexists'')"
  shows "copied_mails (final (main a src dst)) +
         skipped_mails_zero_size (final (main a src dst)) +
         skipped_mails_max_size (final (main a src dst)) +
         skipped_mails_already_exists (final (main a src dst)) +
         skipped_mails_max_line_length (final (main a src dst)) +
         append_errors (final (main a src dst)) =
         source_mails (final (main a src dst))"
proof -
  let ?a = "port_defaulting a"
  from main_decomposition[of a src dst] assms(1)
  obtain sd sdb s1 dd ddb s2 where
    e1: "for_each (source_folder_step ?a src) (imap_list_folders src (source_root a))
           (None, [], initial_state) = (Proceed, (sd, sdb, s1))"
    and e2: "for_each (destination_folder_step ?a dst sd)
           (imap_list_folders dst (destination_root a)) (None, [], s1) =
           (Proceed, (dd, ddb, s2))"
    and m: "main a src dst = redirect_and_transfer ?a (denied_flags a) src dst sd dd sdb ddb s2"
    by auto
  have "source_mails s1 = 0 + total_enumerated src sdb \<and>
        (\<forall>(n, f) \<in> set sdb. manifest_agrees src n f)"
    by (rule get_source_folders_count[OF e1 assms(3)])
      (simp_all add: total_enumerated_def)
  then have c1: "source_mails s1 = total_enumerated src sdb"
    and ag: "\<forall>(n, f) \<in> set sdb. manifest_agrees src n f" by simp_all
  from e1 obtain sm ne
    where "s1 = initial_state\<lparr>source_mails := sm, skipped_mails_no_envelope := ne\<rparr>"
    using get_source_folders_frame by blast
  then have t1: "tally s1 = 0" by (simp add: tally_enumeration_frame)
  from e2 obtain dm bm
    where "s2 = s1\<lparr>destination_mails := dm, skipped_folders_by_mailbox := bm\<rparr>"
    using get_destination_folders_frame by blast
  with t1 c1 have s2: "tally s2 = 0" "source_mails s2 = total_enumerated src sdb"
    by (simp_all add: tally_enumeration_frame)
  from assms(1) m
  obtain redirections where tr: "transfer ?a (denied_flags a) src dst sd dd sdb ddb redirections s2 =
      (Proceed, final (main a src dst))"
    using redirect_and_transfer_finished[of ?a "denied_flags a" src dst sd dd sdb ddb s2]
    by auto
  have d: "\<not> dry_run ?a" using assms(2) by simp
  have h: "abort_on_error ?a \<or>
         (\<forall>h name e. imap_reply dst (h @ [CREATE name]) = No e \<or>
                      imap_reply dst (h @ [SUBSCRIBE name]) = No e \<longrightarrow>
                      contains (lower e) ''alreadyexists'')"
    using assms(4) by simp
  from transfer_tally[OF tr d ag h] s2
  have "tally (final (main a src dst)) = source_mails (final (main a src dst))" by simp
  then show ?thesis by (simp add: tally_def)
qed

theorem conservation_of_messages_witness:
  "ending (main sized_args demo_source demo_destination) = Finished \<and>
   \<not> dry_run sized_args \<and>
   copied_mails (final (main sized_args demo_source demo_destination)) = 1 \<and>
   append_errors (final (main sized_args demo_source demo_destination)) = 0 \<and>
   source_mails (final (main sized_args demo_source demo_destination)) = 1"
proof -
  have f: "ending (main sized_args demo_source demo_destination) = Finished" by code_simp
  have d: "\<not> dry_run sized_args" by (simp add: sized_args_def default_args_def)
  have n: "distinct (map (\<lambda>(flags, delimiter, name). name)
      (imap_list_folders demo_source (source_root sized_args)))"
    by (simp add: demo_source_def)
  have h: "abort_on_error sized_args \<or>
         (\<forall>h name e. imap_reply demo_destination (h @ [CREATE name]) = No e \<or>
                      imap_reply demo_destination (h @ [SUBSCRIBE name]) = No e \<longrightarrow>
                      contains (lower e) ''alreadyexists'')"
    by (simp add: demo_destination_def)
  have c: "copied_mails (final (main sized_args demo_source demo_destination)) = 1"
    "skipped_mails_zero_size (final (main sized_args demo_source demo_destination)) = 0"
    "skipped_mails_max_size (final (main sized_args demo_source demo_destination)) = 0"
    "skipped_mails_already_exists (final (main sized_args demo_source demo_destination)) = 0"
    "skipped_mails_max_line_length (final (main sized_args demo_source demo_destination)) = 0"
    "append_errors (final (main sized_args demo_source demo_destination)) = 0"
    by code_simp+
  from conservation_of_messages[OF f d n h] c
  have "source_mails (final (main sized_args demo_source demo_destination)) = 1" by simp
  with f d c show ?thesis by simp
qed

subsection \<open>Progress and dry runs\<close>

text \<open>
  In a run as in the amended claim C1, \<open>processed\<close> ends equal to \<open>source_mails\<close>: the
  progress percentage \<open>processed / source_mails * 100\<close> ends at 100.
\<close>

theorem processed_reaches_source_mails:
  assumes "ending (main a src dst) = Finished"
    and "\<not> dry_run a"
    and "distinct (map (\<lambda>(flags, delimiter, name). name) (imap_list_folders src (source_root a)))"
    and "abort_on_error a \<or>
         (\<forall>h name e. imap_reply dst (h @ [CREATE name]) = No e \<or>
                      imap_reply dst (h @ [SUBSCRIBE name]) = No e \<longrightarrow>
                      contains (lower e) ''alreadyexists'')"
  shows "processed (final (main a src dst)) = source_mails (final (main a src dst))"
proof -
  let ?a = "port_defaulting a"
  from main_decomposition[of a src dst] assms(1)
  obtain sd sdb s1 dd ddb s2 where
    e1: "for_each (source_folder_step ?a src) (imap_list_folders src (source_root a))
           (None, [], initial_state) = (Proceed, (sd, sdb, s1))"
    and e2: "for_each (destination_folder_step ?a dst sd)
           (imap_list_folders dst (destination_root a)) (None, [], s1) =
           (Proceed, (dd, ddb, s2))"
    and m: "main a src dst = redirect_and_transfer ?a (denied_flags a) src dst sd dd sdb ddb s2"
    by auto
  have "source_mails s1 = 0 + total_enumerated src sdb \<and>
        (\<forall>(n, f) \<in> set sdb. manifest_agrees src n f)"
    by (rule get_source_folders_count[OF e1 assms(3)])
      (simp_all add: total_enumerated_def)
  then have c1: "source_mails s1 = total_enumerated src sdb"
    and ag: "\<forall>(n, f) \<in> set sdb. manifest_agrees src n f" by simp_all
  from e1 obtain sm ne
    where "s1 = initial_state\<lparr>source_mails := sm, skipped_mails_no_envelope := ne\<rparr>"
    using get_source_folders_frame by blast
  then have t1: "processed s1 = 0" by (simp add: initial_state_def)
  from e2 obtain dm bm
    where "s2 = s1\<lparr>destination_mails := dm, skipped_folders_by_mailbox := bm\<rparr>"
    using get_destination_folders_frame by blast
  with t1 c1 have s2: "processed s2 = 0" "source_mails s2 = total_enumerated src sdb"
    by simp_all
  from assms(1) m
  obtain redirections where tr: "transfer ?a (denied_flags a) src dst sd dd sdb ddb redirections s2 =
      (Proceed, final (main a src dst))"
    using redirect_and_transfer_finished[of ?a "denied_flags a" src dst sd dd sdb ddb s2]
    by auto
  have d: "\<not> dry_run ?a" using assms(2) by simp
  have h: "abort_on_error ?a \<or>
         (\<forall>h name e. imap_reply dst (h @ [CREATE name]) = No e \<or>
                      imap_reply dst (h @ [SUBSCRIBE name]) = No e \<longrightarrow>
                      contains (lower e) ''alreadyexists'')"
    using assms(4) by simp
  from transfer_tally[OF tr d ag h] s2 show ?thesis by simp
qed

theorem processed_reaches_source_mails_witness:
  "ending (main sized_args demo_source demo_destination) = Finished \<and>
   \<not> dry_run sized_args \<and>
   source_mails (final (main sized_args demo_source demo_destination)) = 1 \<and>
   processed (final (main sized_args demo_source demo_destination)) = 1"
proof -
  have f: "ending (main sized_args demo_source demo_destination) = Finished" by code_simp
  have d: "\<not> dry_run sized_args" by (simp add: sized_args_def default_args_def)
  have n: "distinct (map (\<lambda>(flags, delimiter, name). name)
      (imap_list_folders demo_source (source_root sized_args)))"
    by (simp add: demo_source_def)
  have h: "abort_on_error sized_args \<or>
         (\<forall>h name e. imap_reply demo_destination (h @ [CREATE name]) = No e \<or>
                      imap_reply demo_destination (h @ [SUBSCRIBE name]) = No e \<longrightarrow>
                      contains (lower e) ''alreadyexists'')"
    by (simp add: demo_destination_def)
  have s: "source_mails (final (main sized_args demo_source demo_destination)) = 1"
    by code_simp
  from processed_reaches_source_mails[OF f d n h] s
  have "processed (final (main sized_args demo_source demo_destination)) = 1" by simp
  with f d s show ?thesis by simp
qed

lemma transfer_folder_dry_run:
  assumes "transfer_folder a denied src dst sd dd ddb redirections entry s = (out, s')"
    and "dry_run a"
  shows "commands s' = commands s"
proof -
  obtain sf_name sf where e: "entry = (sf_name, sf)" by (cases entry)
  show ?thesis
  proof (cases "df_name a sd dd ddb redirections sf_name sf")
    case (Inl x)
    with assms e show ?thesis by (simp add: transfer_folder_def)
  next
    case (Inr folder)
    obtain o1 s1 where c: "create_folder a dst ddb sf folder s = (o1, s1)"
      by (cases "create_folder a dst ddb sf folder s")
    with assms(2) have "commands s1 = commands s"
      by (auto simp: create_folder_def split: if_splits)
    moreover from assms e Inr c have "s' = s1"
      by (cases o1) (auto simp: transfer_folder_def)
    ultimately show ?thesis by simp
  qed
qed

text \<open>
  Dry-run purity (testable property 6 of the specification): a dry run sends no
  \<open>CREATE\<close>, no \<open>SUBSCRIBE\<close> and no \<open>APPEND\<close> to the destination.
\<close>

theorem dry_run_sends_nothing:
  assumes "dry_run a"
  shows "commands (final (main a src dst)) = []"
proof -
  let ?a = "port_defaulting a"
  from main_decomposition[of a src dst]
  consider "commands (final (main a src dst)) = []"
    | sd sdb s1 dd ddb s2 where
      "for_each (source_folder_step ?a src)
        (imap_list_folders src (source_root a)) (None, [], initial_state) =
        (Proceed, (sd, sdb, s1))"
      "for_each (destination_folder_step ?a dst sd)
        (imap_list_folders dst (destination_root a)) (None, [], s1) =
        (Proceed, (dd, ddb, s2))"
      "main a src dst = redirect_and_transfer ?a (denied_flags a) src dst sd dd sdb ddb s2"
    by blast
  then show ?thesis
  proof cases
    case 1
    then show ?thesis .
  next
    case 2
    from 2(1) obtain sm ne
      where "s1 = initial_state\<lparr>source_mails := sm, skipped_mails_no_envelope := ne\<rparr>"
      using get_source_folders_frame by blast
    then have "commands s1 = []" by simp
    moreover from 2(2) obtain dm bm
      where "s2 = s1\<lparr>destination_mails := dm, skipped_folders_by_mailbox := bm\<rparr>"
      using get_destination_folders_frame by blast
    ultimately have c2: "commands s2 = []" by simp
    have d: "dry_run ?a" using assms by simp
    have "commands (final (redirect_and_transfer ?a (denied_flags a) src dst sd dd sdb ddb s2))
        = []"
    proof (cases "case redirect ?a of None \<Rightarrow> Inr ([], [])
              | Some rules \<Rightarrow> custom_links (map fst sdb) rules ([], [])")
      case (Inl e)
      with c2 show ?thesis by (simp add: redirect_and_transfer_def)
    next
      case (Inr p)
      obtain redirections not_found where p: "p = (redirections, not_found)" by (cases p)
      show ?thesis
      proof (cases "not_found = []")
        case False
        with Inr p c2 show ?thesis by (simp add: redirect_and_transfer_def)
      next
        case True
        obtain out s' where t: "transfer ?a (denied_flags a) src dst sd dd sdb ddb redirections s2 =
            (out, s')"
          by (metis prod.exhaust)
        then have fe: "for_each (transfer_folder ?a (denied_flags a) src dst sd dd ddb redirections)
          (sort_key (\<lambda>(name, sf). lower name) sdb) s2 = (out, s')" by (simp add: transfer_def)
        have "commands s' = []"
        proof (rule for_each_invariant[where I = "\<lambda>s. commands s = []", OF _ c2 fe])
          fix x s out s'
          assume "commands s = []"
            "transfer_folder ?a (denied_flags a) src dst sd dd ddb redirections x s = (out, s')"
          with transfer_folder_dry_run[OF _ d] show "commands s' = []" by metis
        qed
        moreover from Inr p True t
        have "final (redirect_and_transfer ?a (denied_flags a) src dst sd dd sdb ddb s2) = s'"
          by (cases out) (auto simp: redirect_and_transfer_def split: exn.splits)
        ultimately show ?thesis by simp
      qed
    qed
    with 2(3) show ?thesis by simp
  qed
qed

theorem dry_run_sends_nothing_witness:
  "dry_run dry_args \<and>
   ending (main dry_args single_source demo_destination) = Finished \<and>
   commands (final (main dry_args single_source demo_destination)) = []"
proof -
  have d: "dry_run dry_args" by (simp add: dry_args_def)
  have f: "ending (main dry_args single_source demo_destination) = Finished" by code_simp
  from dry_run_sends_nothing[OF d, of single_source demo_destination] d f
  show ?thesis by simp
qed

subsection \<open>Boundary behaviours\<close>

text \<open>
  Internal-date preservation (testable property 4 of the specification): every
  \<open>APPEND\<close> of a run carries the payload and the internal date of one message of the
  source.
\<close>

theorem append_carries_source_message:
  assumes "APPEND folder msg flags date \<in> set (commands (final (main a src dst)))"
  shows "\<exists>name uid data.
           imap_mail src name uid = Some data \<and> msg = RFC822 data \<and> date = INTERNALDATE data"
proof -
  from main_from_source[of a src dst] assms
  have "from_source src (denied_flags a) (APPEND folder msg flags date)" by blast
  then show ?thesis by (auto simp: from_source_def)
qed

theorem append_carries_source_message_witness:
  "APPEND ''INBOX'' ''body'' [backslash # ''Seen'', backslash # ''Flagged''] ''d1''
     \<in> set (commands (final (main sized_args demo_source demo_destination))) \<and>
   (\<exists>name uid data.
      imap_mail demo_source name uid = Some data \<and> ''body'' = RFC822 data \<and>
      ''d1'' = INTERNALDATE data)"
proof -
  have c: "commands (final (main sized_args demo_source demo_destination)) =
      [APPEND ''INBOX'' ''body'' [backslash # ''Seen'', backslash # ''Flagged''] ''d1'']"
    by code_simp
  then have m: "APPEND ''INBOX'' ''body'' [backslash # ''Seen'', backslash # ''Flagged''] ''d1''
     \<in> set (commands (final (main sized_args demo_source demo_destination)))" by simp
  from append_carries_source_message[OF m] m show ?thesis by simp
qed

text \<open>
  A message of size 0 is counted under \<open>zero_size\<close> and as processed, and is never
  sent to the destination.
\<close>

theorem zero_size_never_appended:
  assumes "source_mails s \<noteq> 0" "map_of (sf_mails sf) mail_id = Some row" "row_size row = 0"
  shows "transfer_mail a denied dst ddb sf folder (mail_id, data) s =
           (Proceed, s\<lparr>skipped_mails_zero_size := skipped_mails_zero_size s + 1,
                       processed := processed s + 1\<rparr>) \<and>
         commands (snd (transfer_mail a denied dst ddb sf folder (mail_id, data) s)) =
           commands s"
  using assms by (simp add: transfer_mail_def)

theorem zero_size_never_appended_witness:
  "source_mails enumerated_state \<noteq> 0 \<and>
   map_of (sf_mails empty_mail_manifest) 1 = Some (sample_row\<lparr>row_size := 0\<rparr>) \<and>
   skipped_mails_zero_size (snd (transfer_mail default_args [] demo_destination []
      empty_mail_manifest ''INBOX'' (1, mail_with_envelope) enumerated_state)) = 1 \<and>
   commands (snd (transfer_mail default_args [] demo_destination []
      empty_mail_manifest ''INBOX'' (1, mail_with_envelope) enumerated_state)) = []"
proof -
  have s: "source_mails enumerated_state \<noteq> 0" "commands enumerated_state = []"
    "skipped_mails_zero_size enumerated_state = 0"
    by (simp_all add: enumerated_state_def initial_state_def)
  have m: "map_of (sf_mails empty_mail_manifest) 1 = Some (sample_row\<lparr>row_size := 0\<rparr>)"
    by (simp add: empty_mail_manifest_def)
  have z: "row_size (sample_row\<lparr>row_size := 0\<rparr>) = 0" by simp
  from zero_size_never_appended[OF s(1) m z, of default_args "[]" demo_destination "[]"
      "''INBOX''" mail_with_envelope] s m
  show ?thesis by simp
qed

text \<open>
  A run that ends at the unresolved-redirection exit has sent no command to the
  destination.
\<close>

theorem unresolved_redirection_sends_nothing:
  assumes "ending (main a src dst) = Exit_redirect"
  shows "commands (final (main a src dst)) = []"
proof -
  let ?a = "port_defaulting a"
  from main_decomposition[of a src dst] assms
  obtain sd sdb s1 dd ddb s2 where
    e1: "for_each (source_folder_step ?a src) (imap_list_folders src (source_root a))
           (None, [], initial_state) = (Proceed, (sd, sdb, s1))"
    and e2: "for_each (destination_folder_step ?a dst sd)
           (imap_list_folders dst (destination_root a)) (None, [], s1) =
           (Proceed, (dd, ddb, s2))"
    and m: "main a src dst = redirect_and_transfer ?a (denied_flags a) src dst sd dd sdb ddb s2"
    by auto
  from e1 obtain sm ne
    where "s1 = initial_state\<lparr>source_mails := sm, skipped_mails_no_envelope := ne\<rparr>"
    using get_source_folders_frame by blast
  then have "commands s1 = []" by simp
  moreover from e2 obtain dm bm
    where "s2 = s1\<lparr>destination_mails := dm, skipped_folders_by_mailbox := bm\<rparr>"
    using get_destination_folders_frame by blast
  ultimately have c2: "commands s2 = []" by simp
  from assms m
  have "ending (redirect_and_transfer ?a (denied_flags a) src dst sd dd sdb ddb s2) =
      Exit_redirect" by simp
  then have "final (redirect_and_transfer ?a (denied_flags a) src dst sd dd sdb ddb s2) = s2"
    by (auto simp: redirect_and_transfer_def
        split: sum.splits prod.splits if_splits outcome.splits exn.splits)
  with c2 m show ?thesis by simp
qed

theorem unresolved_redirection_sends_nothing_witness:
  "ending (main (unresolved_rule_args\<lparr>list_flag := False\<rparr>) demo_source demo_destination)
     = Exit_redirect \<and>
   commands (final (main (unresolved_rule_args\<lparr>list_flag := False\<rparr>) demo_source
     demo_destination)) = []"
proof -
  have e: "ending (main (unresolved_rule_args\<lparr>list_flag := False\<rparr>) demo_source
      demo_destination) = Exit_redirect"
    by code_simp
  from unresolved_redirection_sends_nothing[OF e] e show ?thesis by simp
qed

subsection \<open>Redirection rules\<close>

lemma split_once_colon:
  "sep \<notin> set a \<Longrightarrow> split_once sep (a @ sep # b) = Some (a, b)"
  by (induction a) auto

lemma custom_links_append:
  "custom_links folders (rules @ [rule]) acc =
     (case custom_links folders rules acc of
        Inl e \<Rightarrow> Inl e
      | Inr acc' \<Rightarrow> custom_links folders [rule] acc')"
proof (induction rules arbitrary: acc)
  case Nil
  show ?case by simp
next
  case (Cons r rs)
  show ?case
  proof (cases "split_once CHR '':'' r")
    case None
    then show ?thesis by simp
  next
    case (Some p)
    obtain s d where p: "p = (s, d)" by (cases p)
    obtain reds nf where acc: "acc = (reds, nf)" by (cases acc)
    from Some p acc Cons.IH show ?thesis by (simp add: Let_def)
  qed
qed

lemma fold_update_member:
  fixes reds :: "('a \<times> 'b) list"
  shows "folder \<in> set wm \<Longrightarrow>
   map_of (fold (\<lambda>f. AList.update f d) wm reds) folder = Some d"
proof (induction wm arbitrary: reds)
  case Nil
  then show ?case by simp
next
  case (Cons w ws)
  show ?case
  proof (cases "folder \<in> set ws")
    case True
    then show ?thesis using Cons.IH by simp
  next
    case False
    with Cons.prems have w: "w = folder" by simp
    have "\<And>reds. folder \<notin> set ws \<Longrightarrow>
        map_of (fold (\<lambda>f. AList.update f d) ws reds) folder = map_of reds folder"
    proof -
      fix reds :: "('a \<times> 'b) list"
      assume "folder \<notin> set ws"
      then show "map_of (fold (\<lambda>f. AList.update f d) ws reds) folder = map_of reds folder"
        by (induction ws arbitrary: reds) (auto simp: update_conv')
    qed
    from this[OF False] w show ?thesis by (simp add: update_conv')
  qed
qed

text \<open>
  The last redirection rule \<open>SRC:DST\<close> decides for the folder \<open>SRC\<close> itself and, when
  \<open>SRC\<close> ends in \<open>*\<close>, for every source folder whose name starts with \<open>SRC\<close> without
  that last character: each of them is redirected to \<open>DST\<close>.
\<close>

theorem last_rule_redirects:
  assumes "CHR '':'' \<notin> set r_source"
    and "custom_links folders (rules @ [r_source @ CHR '':'' # r_destination]) acc =
           Inr (redirections, not_found)"
  shows "map_of redirections r_source = Some r_destination \<and>
         (\<forall>folder \<in> set folders.
            endswith r_source ''*'' \<and> startswith folder (butlast r_source) \<longrightarrow>
            map_of redirections folder = Some r_destination)"
proof -
  from assms(2) obtain reds nf where
    one: "custom_links folders [r_source @ CHR '':'' # r_destination] (reds, nf) =
            Inr (redirections, not_found)"
    by (auto simp: custom_links_append split: sum.splits)
  let ?wm = "filter (\<lambda>f. startswith f (butlast r_source)) folders"
  let ?acc1 = "if endswith r_source ''*'' then
                 (if ?wm \<noteq> []
                  then (fold (\<lambda>folder. AList.update folder r_destination) ?wm reds, nf)
                  else (reds, nf @ [r_source]))
               else if r_source \<notin> set folders then (reds, nf @ [r_source])
               else (reds, nf)"
  from one assms(1)
  have r: "redirections = AList.update r_source r_destination (fst ?acc1)"
    by (simp add: split_once_colon Let_def)
  then have 1: "map_of redirections r_source = Some r_destination"
    by (simp add: update_conv')
  have 2: "\<forall>folder \<in> set folders.
            endswith r_source ''*'' \<and> startswith folder (butlast r_source) \<longrightarrow>
            map_of redirections folder = Some r_destination"
  proof (intro ballI impI)
    fix folder
    assume f: "folder \<in> set folders"
      and w: "endswith r_source ''*'' \<and> startswith folder (butlast r_source)"
    then have m: "folder \<in> set ?wm" by simp
    then have ne: "?wm \<noteq> []" by (metis empty_iff list.set(1))
    from fold_update_member[OF m, of r_destination reds]
    have "map_of (fst ?acc1) folder = Some r_destination" using w ne by simp
    with r show "map_of redirections folder = Some r_destination"
      by (simp add: update_conv')
  qed
  from 1 2 show ?thesis by simp
qed

theorem last_rule_redirects_witness:
  "CHR '':'' \<notin> set ''Work*'' \<and>
   custom_links [''INBOX'', ''Work/A'', ''Work/B''] ([''INBOX:Old''] @ [''Work*'' @ CHR '':'' # ''Jobs''])
     ([], []) =
     Inr ([(''INBOX'', ''Old''), (''Work/A'', ''Jobs''), (''Work/B'', ''Jobs''), (''Work*'', ''Jobs'')],
          []) \<and>
   ''Work/A'' \<in> set [''INBOX'', ''Work/A'', ''Work/B''] \<and>
   endswith ''Work*'' ''*'' \<and> startswith ''Work/A'' (butlast ''Work*'') \<and>
   map_of [(''INBOX'', ''Old''), (''Work/A'', ''Jobs''), (''Work/B'', ''Jobs''), (''Work*'', ''Jobs'')]
     ''Work/A'' = Some ''Jobs''"
proof -
  have c: "CHR '':'' \<notin> set ''Work*''" by simp
  have l: "custom_links [''INBOX'', ''Work/A'', ''Work/B'']
      ([''INBOX:Old''] @ [''Work*'' @ CHR '':'' # ''Jobs'']) ([], []) =
     Inr ([(''INBOX'', ''Old''), (''Work/A'', ''Jobs''), (''Work/B'', ''Jobs''), (''Work*'', ''Jobs'')],
          [])"
    by code_simp
  have m: "''Work/A'' \<in> set [''INBOX'', ''Work/A'', ''Work/B'']" by simp
  have w: "endswith ''Work*'' ''*''" "startswith ''Work/A'' (butlast ''Work*'')"
    by code_simp+
  from last_rule_redirects[OF c l] m w
  have "map_of [(''INBOX'', ''Old''), (''Work/A'', ''Jobs''), (''Work/B'', ''Jobs''),
      (''Work*'', ''Jobs'')] ''Work/A'' = Some ''Jobs''" by blast
  with c l m w show ?thesis by simp
qed

end
